theory Spec2Isabelle
  imports Complex_Main
begin

section \<open>JavaScript values\<close>

text \<open>
  The values the exchange declarations and the publisher handle. Numbers are the integers
  among the numbers of the language, which are doubles: a number with a fractional part is
  outside these values, and so is a function. Strings are sequences of code units, so
  \<open>length\<close> is the \<open>.length\<close> of the source. An object is the list of its own properties; it
  inherits from \<open>Object.prototype\<close>.
\<close>

datatype jsval =
    Undefined
  | Null
  | Bool bool
  | Num int
  | Str string
  | Arr "jsval list"
  | Obj "(string \<times> jsval) list"

text \<open>Truthiness, as \<open>if (v)\<close>, \<open>!v\<close> and \<open>v ? a : b\<close> read a value.\<close>

fun truthy :: "jsval \<Rightarrow> bool" where
  "truthy Undefined = False"
| "truthy Null = False"
| "truthy (Bool b) = b"
| "truthy (Num n) = (n \<noteq> 0)"
| "truthy (Str s) = (s \<noteq> [])"
| "truthy (Arr xs) = True"
| "truthy (Obj ps) = True"

datatype jstype = TUndefined | TObject | TBoolean | TNumber | TString

fun typeof :: "jsval \<Rightarrow> jstype" where
  "typeof Undefined = TUndefined"
| "typeof Null = TObject"
| "typeof (Bool b) = TBoolean"
| "typeof (Num n) = TNumber"
| "typeof (Str s) = TString"
| "typeof (Arr xs) = TObject"
| "typeof (Obj ps) = TObject"

text \<open>\<open>Array.prototype.join\<close> on strings and \<open>String.prototype.split\<close> on a one-character
  separator.\<close>

fun join :: "string \<Rightarrow> string list \<Rightarrow> string" where
  "join sep [] = []"
| "join sep [w] = w"
| "join sep (w # v # ws) = w @ sep @ join sep (v # ws)"

fun split :: "char \<Rightarrow> string \<Rightarrow> string list" where
  "split c [] = [[]]"
| "split c (x # xs) =
     (if x = c then [] # split c xs
      else (case split c xs of [] \<Rightarrow> [[x]] | w # ws \<Rightarrow> (x # w) # ws))"

text \<open>Decimal digits of a natural number.\<close>

definition digit :: "nat \<Rightarrow> char" where
  "digit d = ''0123456789'' ! d"

function show_nat :: "nat \<Rightarrow> string" where
  "show_nat n = (if n < 10 then [digit n] else show_nat (n div 10) @ [digit (n mod 10)])"
  by pat_completeness auto
termination
  by (relation "measure id") auto

declare show_nat.simps [simp del]

text \<open>
  \<open>'' + word\<close> for a number: \<open>ToString\<close> of a double. The double of an integer is the
  integer rounded to 53 bits, to the even neighbour when it is half way. It prints as the
  decimal number of the fewest significant digits that is read as this double, the nearest
  one to it if there are several: in full up to 21 digits, and with an exponent from
  \<open>1e+21\<close> on. Beyond the doubles it is \<open>Infinity\<close>.
\<close>

function bits :: "nat \<Rightarrow> nat" where
  "bits n = (if n = 0 then 0 else Suc (bits (n div 2)))"
  by pat_completeness auto
termination
  by (relation "measure id") auto

declare bits.simps [simp del]

definition to_double :: "nat \<Rightarrow> nat" where
  "to_double x =
    (if bits x \<le> 53 then x
     else
       let e = bits x - 53; q = x div 2 ^ e; r = x mod 2 ^ e; half = 2 ^ (e - 1) in
       (if half < r \<or> (r = half \<and> odd q) then q + 1 else q) * 2 ^ e)"

function zeros :: "nat \<Rightarrow> nat" where
  "zeros n = (if n = 0 \<or> n mod 10 \<noteq> 0 then 0 else Suc (zeros (n div 10)))"
  by pat_completeness auto
termination
  by (relation "measure id") auto

declare zeros.simps [simp del]

definition significant :: "nat \<Rightarrow> nat" where
  "significant n = length (show_nat n) - zeros n"

text \<open>Of the multiples \<open>lo\<close> and \<open>hi\<close> of \<open>p\<close> around \<open>m\<close>, \<open>lo\<close> is the one to print.\<close>

definition better :: "nat \<Rightarrow> nat \<Rightarrow> nat \<Rightarrow> nat \<Rightarrow> bool" where
  "better m p lo hi \<longleftrightarrow>
     significant lo < significant hi \<or>
     (significant lo = significant hi \<and>
       (m - lo < hi - m \<or> (m - lo = hi - m \<and> even (lo div p))))"

text \<open>The number to print for the double \<open>m\<close>, among those that end in \<open>j\<close> zeros or
  fewer.\<close>

fun shortest :: "nat \<Rightarrow> nat \<Rightarrow> nat" where
  "shortest m 0 = m"
| "shortest m (Suc j) =
     (let p = 10 ^ Suc j; lo = m div p * p; hi = lo + p;
          ok_lo = (0 < lo \<and> to_double lo = m); ok_hi = (to_double hi = m) in
      if ok_lo \<and> ok_hi then (if better m p lo hi then lo else hi)
      else if ok_lo then lo
      else if ok_hi then hi
      else shortest m j)"

definition show_double :: "nat \<Rightarrow> string" where
  "show_double m =
    (if 2 ^ 1024 \<le> m then ''Infinity''
     else
       let d = shortest m (length (show_nat m)); n = length (show_nat d) in
       if n \<le> 21 then show_nat d
       else
         let s = show_nat (d div 10 ^ zeros d) in
         (if length s = 1 then s else hd s # CHR ''.'' # tl s) @ ''e+'' @ show_nat (n - 1))"

definition num_to_string :: "int \<Rightarrow> string" where
  "num_to_string n =
     (if n < 0 then CHR ''-'' # show_double (to_double (nat (- n)))
      else show_double (to_double (nat n)))"

text \<open>\<open>ToString\<close>, as string concatenation applies it to its other operand. An array prints
  its elements joined by commas, \<open>undefined\<close> and \<open>null\<close> elements as nothing.\<close>

fun to_string :: "jsval \<Rightarrow> string" where
  "to_string Undefined = ''undefined''"
| "to_string Null = ''null''"
| "to_string (Bool b) = (if b then ''true'' else ''false'')"
| "to_string (Num n) = num_to_string n"
| "to_string (Str s) = s"
| "to_string (Arr xs) = join '',''
     (map (\<lambda>x. if x = Undefined \<or> x = Null then [] else to_string x) xs)"
| "to_string (Obj ps) = ''[object Object]''"

text \<open>\<open>ToNumber\<close>, as a comparison with a number applies it; \<open>None\<close> is \<open>NaN\<close>. Of the
  strings, the unsigned decimal literals and the empty string are read; every other string is
  taken as \<open>NaN\<close>.\<close>

definition digit_val :: "char \<Rightarrow> nat option" where
  "digit_val c = map_of (zip ''0123456789'' [0 ..< 10]) c"

fun read_nat :: "nat \<Rightarrow> string \<Rightarrow> nat option" where
  "read_nat acc [] = Some acc"
| "read_nat acc (c # cs) =
     (case digit_val c of None \<Rightarrow> None | Some d \<Rightarrow> read_nat (10 * acc + d) cs)"

fun to_number :: "jsval \<Rightarrow> int option" where
  "to_number Undefined = None"
| "to_number Null = Some 0"
| "to_number (Bool b) = Some (if b then 1 else 0)"
| "to_number (Num n) = Some n"
| "to_number (Str s) = map_option int (read_nat 0 s)"
| "to_number (Arr xs) = map_option int (read_nat 0 (to_string (Arr xs)))"
| "to_number (Obj ps) = None"

text \<open>\<open>n <= v\<close> for a number \<open>n\<close>: false as soon as \<open>v\<close> converts to \<open>NaN\<close>.\<close>

definition num_le :: "int \<Rightarrow> jsval \<Rightarrow> bool" where
  "num_le n v = (case to_number v of None \<Rightarrow> False | Some m \<Rightarrow> n \<le> m)"

text \<open>The assertions of the module, each named after what it demands, and the errors: an
  assertion that failed, the error of a message that fails the validation (with the errors
  of the validator), a \<open>TypeError\<close> of the language, the rejection of a connection by the
  broker, and a reference that fails its own schema.\<close>

datatype assertion =
    OptionsMustBeGiven
  | OptionMustBeString string
  | RoutingKeyMustBeArray
  | TwoEntriesNamed string
  | SummaryMustBeProvided
  | TwoMultipleWordEntries string string
  | ConstantMustBeString
  | MustHaveMaxSize string
  | CombinedRoutingKeyTooLarge
  | MessageBuilderMustBeFunction
  | RoutingKeyBuilderMustBeFunction
  | CCBuilderMustBeFunction
  | TwoDeclarationsWithExchange jsval
  | TwoDeclarationsWithName jsval
  | CCBuilderMustReturnArray
  | NonStringRoutingKeyEntry string
  | WordLongerThanMaxSize string string
  | WordCannotContainDot string string
  | ConnectionStringOrCredentials
  | ValidatorMustBeGiven
  | ComponentRequired
  | ProcessRequired
  | TitleMustBeProvided
  | DescriptionMustBeProvided

datatype error =
    AssertionError assertion
  | MessageValidationFailed jsval
  | TypeError
  | ConnectFailed jsval
  | ReferenceSchemaFailed

text \<open>
  Property lookup \<open>o[k]\<close>: a \<open>TypeError\<close> on \<open>undefined\<close> and \<open>null\<close>; otherwise the own
  property of that name (a property of an object, the length and the elements of an array
  or a string), then the property that is inherited, and \<open>undefined\<close> where there is none.
  The inherited properties are functions and objects of the language itself, \<open>Builtin\<close>; they
  are those of ECMAScript 5.1 and of its Annex B, and the accessors \<open>V8\<close> adds to
  \<open>Object.prototype\<close>.
\<close>

datatype found = Value jsval | Builtin

definition object_prototype :: "string list" where
  "object_prototype = [''constructor'', ''toString'', ''toLocaleString'', ''valueOf'',
     ''hasOwnProperty'', ''isPrototypeOf'', ''propertyIsEnumerable'', ''__proto__'',
     ''__defineGetter__'', ''__defineSetter__'', ''__lookupGetter__'', ''__lookupSetter__'']"

definition array_prototype :: "string list" where
  "array_prototype = [''concat'', ''join'', ''pop'', ''push'', ''reverse'', ''shift'', ''slice'',
     ''sort'', ''splice'', ''unshift'', ''indexOf'', ''lastIndexOf'', ''every'', ''some'',
     ''forEach'', ''map'', ''filter'', ''reduce'', ''reduceRight'']"

definition number_prototype :: "string list" where
  "number_prototype = [''toFixed'', ''toExponential'', ''toPrecision'']"

definition string_prototype :: "string list" where
  "string_prototype = [''charAt'', ''charCodeAt'', ''concat'', ''indexOf'', ''lastIndexOf'',
     ''localeCompare'', ''match'', ''replace'', ''search'', ''slice'', ''split'', ''substring'',
     ''toLowerCase'', ''toLocaleLowerCase'', ''toUpperCase'', ''toLocaleUpperCase'', ''trim'',
     ''substr'', ''trimLeft'', ''trimRight'', ''anchor'', ''big'', ''blink'', ''bold'', ''fixed'',
     ''fontcolor'', ''fontsize'', ''italics'', ''link'', ''small'', ''strike'', ''sub'', ''sup'']"

definition inherited :: "string list \<Rightarrow> string \<Rightarrow> found" where
  "inherited names k = (if k \<in> set names \<union> set object_prototype then Builtin else Value Undefined)"

text \<open>The index a property name is: a decimal numeral without a sign or a leading zero.\<close>

definition index_of :: "string \<Rightarrow> nat option" where
  "index_of k =
     (case read_nat 0 k of
        None \<Rightarrow> None
      | Some i \<Rightarrow> if k \<noteq> [] \<and> show_nat i = k then Some i else None)"

fun get_prop :: "jsval \<Rightarrow> string \<Rightarrow> error + found" where
  "get_prop Undefined k = Inl TypeError"
| "get_prop Null k = Inl TypeError"
| "get_prop (Obj ps) k =
     Inr (case map_of ps k of None \<Rightarrow> inherited [] k | Some v \<Rightarrow> Value v)"
| "get_prop (Arr xs) k =
     Inr (if k = ''length'' then Value (Num (int (length xs)))
          else case index_of k of
                 None \<Rightarrow> inherited array_prototype k
               | Some i \<Rightarrow> Value (if i < length xs then xs ! i else Undefined))"
| "get_prop (Str s) k =
     Inr (if k = ''length'' then Value (Num (int (length s)))
          else case index_of k of
                 None \<Rightarrow> inherited string_prototype k
               | Some i \<Rightarrow> Value (if i < length s then Str [s ! i] else Undefined))"
| "get_prop (Num n) k = Inr (inherited number_prototype k)"
| "get_prop (Bool b) k = Inr (inherited [] k)"

section \<open>Exchange declarations\<close>

text \<open>
  One entry of a routing key, as \<open>declare\<close> receives it. The name is a string, as the
  documentation has it; \<open>declare\<close> inspects every other property, so each is any value.
\<close>

record rkey =
  name :: string
  summary :: jsval
  multipleWords :: jsval
  required :: jsval
  "constant" :: jsval
  maxSize :: jsval

text \<open>The options of \<open>declare\<close>. \<open>routingKey\<close> is \<open>None\<close> when it is not an array, a builder
  is \<open>None\<close> when it is not a function.\<close>

record decl =
  exchange :: jsval
  name :: jsval
  title :: jsval
  description :: jsval
  schema :: jsval
  routingKey :: "rkey list option"
  messageBuilder :: "(jsval list \<Rightarrow> jsval) option"
  routingKeyBuilder :: "(jsval list \<Rightarrow> jsval) option"
  CCBuilder :: "(jsval list \<Rightarrow> jsval) option"

text \<open>The variables of the loop over the routing key: \<open>keyNames\<close>, \<open>sizeLeft\<close> and
  \<open>firstMultiWordKey\<close> (\<open>None\<close> is \<open>null\<close>).\<close>

record loop_state =
  keyNames :: "string list"
  sizeLeft :: int
  firstMultiWordKey :: "string option"

definition loop_init :: loop_state where
  "loop_init = \<lparr>keyNames = [], sizeLeft = 255, firstMultiWordKey = None\<rparr>"

text \<open>
  One round of the loop. The entry is an object that the round updates in place, so the
  round returns the entry as it leaves it, also when an assertion fails, next to the
  failure or the new variables.
\<close>

definition declare_key :: "loop_state \<Rightarrow> rkey \<Rightarrow> rkey \<times> (error + loop_state)" where
  "declare_key st key =
    (if rkey.name key \<in> set (keyNames st) then
       (key, Inl (AssertionError (TwoEntriesNamed (rkey.name key))))
     else if typeof (summary key) \<noteq> TString then
       (key, Inl (AssertionError SummaryMustBeProvided))
     else
       let key1 = key\<lparr>multipleWords := Bool (truthy (multipleWords key)),
                       required := Bool (truthy (required key))\<rparr> in
       if truthy (multipleWords key1) \<and> firstMultiWordKey st \<noteq> None then
         (key1, Inl (AssertionError
            (TwoMultipleWordEntries
               (case firstMultiWordKey st of None \<Rightarrow> [] | Some f \<Rightarrow> f) (rkey.name key))))
       else
         let first = (if truthy (multipleWords key1) then Some (rkey.name key)
                      else firstMultiWordKey st) in
         if truthy (constant key1) \<and> typeof (constant key1) \<noteq> TString then
           (key1, Inl (AssertionError ConstantMustBeString))
         else
           let key2 = (if truthy (constant key1) \<and> \<not> truthy (maxSize key1)
                       then key1\<lparr>maxSize := Num (int (length (to_string (constant key1))))\<rparr>
                       else key1) in
           (case maxSize key2 of
              Num m \<Rightarrow>
                if 0 < m then
                  let left = (if sizeLeft st \<noteq> 255 then sizeLeft st - 1 else sizeLeft st) - m in
                  if 0 \<le> left then
                    (key2, Inr \<lparr>keyNames = keyNames st @ [rkey.name key], sizeLeft = left,
                                firstMultiWordKey = first\<rparr>)
                  else (key2, Inl (AssertionError CombinedRoutingKeyTooLarge))
                else (key2, Inl (AssertionError (MustHaveMaxSize (rkey.name key))))
            | _ \<Rightarrow> (key2, Inl (AssertionError (MustHaveMaxSize (rkey.name key))))))"

text \<open>The loop over the entries of a routing key handed over by value: the entries as the
  loop leaves them and its variables, or the first failure.\<close>

fun declare_keys :: "loop_state \<Rightarrow> rkey list \<Rightarrow> error + (rkey list \<times> loop_state)" where
  "declare_keys st [] = Inr ([], st)"
| "declare_keys st (key # keys) =
     (case declare_key st key of
        (key', Inl e) \<Rightarrow> Inl e
      | (key', Inr st') \<Rightarrow>
          (case declare_keys st' keys of
             Inl e \<Rightarrow> Inl e
           | Inr (keys', st'') \<Rightarrow> Inr (key' # keys', st'')))"

section \<open>The registry of declarations\<close>

text \<open>The options of the registry and of \<open>connect\<close> and \<open>reference\<close>. An option that is not
  given is \<open>None\<close>; \<open>validator\<close> is the \<open>check\<close> method of the validator, \<open>None\<close> when the
  value is no instance of \<open>Validator\<close>.\<close>

record credentials =
  username :: "string option"
  password :: "string option"
  hostname :: "string option"

record options =
  title :: "string option"
  description :: "string option"
  exchangePrefix :: "string option"
  schemaPrefix :: "string option"
  durableExchanges :: "bool option"
  credentials :: "credentials option"
  connectionString :: "string option"
  validator :: "(jsval \<Rightarrow> jsval \<Rightarrow> jsval) option"
  drain :: "nat option"
  component :: "string option"
  process :: "string option"

definition no_options :: options where
  "no_options = \<lparr>title = None, description = None, exchangePrefix = None,
     schemaPrefix = None, durableExchanges = None, credentials = None,
     connectionString = None, validator = None, drain = None, component = None,
     process = None\<rparr>"

text \<open>Truthiness of an optional string: given and not empty.\<close>

fun given :: "string option \<Rightarrow> bool" where
  "given None = False"
| "given (Some s) = (s \<noteq> [])"

fun orElse :: "'a option \<Rightarrow> 'a option \<Rightarrow> 'a option" where
  "orElse None b = b"
| "orElse (Some x) b = Some x"

text \<open>\<open>_.defaults({}, a, b)\<close>: every option of \<open>a\<close> that is given, the option of \<open>b\<close>
  otherwise.\<close>

definition defaults :: "options \<Rightarrow> options \<Rightarrow> options" where
  "defaults a b = \<lparr>
     title = orElse (options.title a) (options.title b),
     description = orElse (options.description a) (options.description b),
     exchangePrefix = orElse (exchangePrefix a) (exchangePrefix b),
     schemaPrefix = orElse (schemaPrefix a) (schemaPrefix b),
     durableExchanges = orElse (durableExchanges a) (durableExchanges b),
     credentials = orElse (credentials a) (credentials b),
     connectionString = orElse (connectionString a) (connectionString b),
     validator = orElse (validator a) (validator b),
     drain = orElse (drain a) (drain b),
     component = orElse (component a) (component b),
     process = orElse (process a) (process b)\<rparr>"

text \<open>The registry \<open>Exchanges\<close>: \<open>_entries\<close> and \<open>_options\<close>.\<close>

record exchanges =
  entries :: "decl list"
  opts :: options

definition configure :: "exchanges \<Rightarrow> options \<Rightarrow> exchanges" where
  "configure this options = this\<lparr>opts := defaults options (opts this)\<rparr>"

definition Exchanges :: "options \<Rightarrow> error + exchanges" where
  "Exchanges options =
    (if \<not> given (options.title options) then Inl (AssertionError TitleMustBeProvided)
     else if \<not> given (options.description options) then
       Inl (AssertionError DescriptionMustBeProvided)
     else Inr (configure
       \<lparr>entries = [],
        opts = no_options\<lparr>exchangePrefix := Some [], durableExchanges := Some True,
                           schemaPrefix := Some []\<rparr>\<rparr> options))"

text \<open>The first of \<open>exchange\<close>, \<open>name\<close>, \<open>title\<close>, \<open>description\<close> and \<open>schema\<close> that is not
  a string.\<close>

definition check_strings :: "decl \<Rightarrow> error option" where
  "check_strings options =
    (if typeof (exchange options) \<noteq> TString then
       Some (AssertionError (OptionMustBeString ''exchange''))
     else if typeof (decl.name options) \<noteq> TString then
       Some (AssertionError (OptionMustBeString ''name''))
     else if typeof (decl.title options) \<noteq> TString then
       Some (AssertionError (OptionMustBeString ''title''))
     else if typeof (decl.description options) \<noteq> TString then
       Some (AssertionError (OptionMustBeString ''description''))
     else if typeof (schema options) \<noteq> TString then
       Some (AssertionError (OptionMustBeString ''schema''))
     else None)"

text \<open>The loop over the stored entries: \<open>exchange\<close> and \<open>name\<close> are new.\<close>

fun check_unique :: "decl list \<Rightarrow> decl \<Rightarrow> error option" where
  "check_unique [] options = None"
| "check_unique (entry # es) options =
     (if exchange entry = exchange options then
        Some (AssertionError (TwoDeclarationsWithExchange (exchange entry)))
      else if decl.name entry = decl.name options then
        Some (AssertionError (TwoDeclarationsWithName (decl.name entry)))
      else check_unique es options)"

text \<open>The options once the schema has the prefix of the registry, if it has one.\<close>

definition prefixed :: "string option \<Rightarrow> decl \<Rightarrow> decl" where
  "prefixed p options =
     (case p of
        None \<Rightarrow> options
      | Some prefix \<Rightarrow>
          if prefix \<noteq> [] then options\<lparr>schema := Str (prefix @ to_string (schema options))\<rparr>
          else options)"

text \<open>\<open>Exchanges.prototype.declare\<close>, on options handed over by value: the registry with
  the declaration stored, or the assertion that failed. What a call that fails has by then
  done to the options, which are an object of the caller, is told on the store
  (\<open>declare_h\<close> below).\<close>

definition declare_exchange :: "exchanges \<Rightarrow> decl \<Rightarrow> error + exchanges" where
  "declare_exchange this options =
    (case check_strings options of
       Some e \<Rightarrow> Inl e
     | None \<Rightarrow>
       let options1 = prefixed (schemaPrefix (opts this)) options in
       (case routingKey options1 of
          None \<Rightarrow> Inl (AssertionError RoutingKeyMustBeArray)
        | Some keys \<Rightarrow>
          (case declare_keys loop_init keys of
             Inl e \<Rightarrow> Inl e
           | Inr (keys', st) \<Rightarrow>
             let options2 = options1\<lparr>routingKey := Some keys'\<rparr> in
             if messageBuilder options2 = None then
               Inl (AssertionError MessageBuilderMustBeFunction)
             else if routingKeyBuilder options2 = None then
               Inl (AssertionError RoutingKeyBuilderMustBeFunction)
             else if CCBuilder options2 = None then
               Inl (AssertionError CCBuilderMustBeFunction)
             else
               (case check_unique (entries this) options2 of
                  Some e \<Rightarrow> Inl e
                | None \<Rightarrow> Inr (this\<lparr>entries := entries this @ [options2]\<rparr>)))))"

section \<open>Connecting and the reference\<close>

text \<open>The publisher, as the variables of its constructor that its methods read: the entries
  (its copy), the exchange prefix and the options.\<close>

record publisher =
  pub_entries :: "decl list"
  pub_exchangePrefix :: "string option"
  pub_options :: options

text \<open>An element of an array under \<open>join\<close>: nothing when it is \<open>undefined\<close>.\<close>

fun join_elem :: "string option \<Rightarrow> string" where
  "join_elem None = []"
| "join_elem (Some s) = s"

text \<open>An optional string under \<open>+\<close>.\<close>

fun concat_elem :: "string option \<Rightarrow> string" where
  "concat_elem None = ''undefined''"
| "concat_elem (Some s) = s"

text \<open>The options of a call over those of the registry, over \<open>{credentials: {}}\<close>.\<close>

definition call_options :: "exchanges \<Rightarrow> options \<Rightarrow> options" where
  "call_options this options =
     defaults options (defaults (opts this)
       (no_options\<lparr>credentials := Some \<lparr>username = None, password = None, hostname = None\<rparr>\<rparr>))"

definition the_credentials :: "options \<Rightarrow> credentials" where
  "the_credentials options =
     (case credentials options of
        None \<Rightarrow> \<lparr>username = None, password = None, hostname = None\<rparr>
      | Some c \<Rightarrow> c)"

text \<open>The constructor of \<open>Publisher\<close>: its assertions, then the object.\<close>

definition Publisher :: "decl list \<Rightarrow> string option \<Rightarrow> options \<Rightarrow> error + publisher" where
  "Publisher es prefix options =
    (if validator options = None then Inl (AssertionError ValidatorMustBeGiven)
     else if drain options \<noteq> None \<and> \<not> given (component options) then
       Inl (AssertionError ComponentRequired)
     else if drain options \<noteq> None \<and> \<not> given (process options) then
       Inl (AssertionError ProcessRequired)
     else Inr \<lparr>pub_entries = es, pub_exchangePrefix = prefix, pub_options = options\<rparr>)"

text \<open>The exchange prefix that \<open>connect\<close> computes from the merged options, and its
  connection string.\<close>

definition connect_exchangePrefix :: "options \<Rightarrow> string option" where
  "connect_exchangePrefix options =
    (if credentials options \<noteq> None \<and> given (username (the_credentials options)) \<and>
        given (password (the_credentials options))
     then Some (join ''/'' [''exchange'', join_elem (username (the_credentials options)),
                            join_elem (exchangePrefix options)])
     else exchangePrefix options)"

definition connect_connectionString :: "options \<Rightarrow> string option" where
  "connect_connectionString options =
    (if credentials options \<noteq> None \<and> given (username (the_credentials options)) \<and>
        given (password (the_credentials options))
     then Some (join [] [''amqps://'', join_elem (username (the_credentials options)), '':'',
                         join_elem (password (the_credentials options)), ''@'',
                         (if given (hostname (the_credentials options))
                          then join_elem (hostname (the_credentials options))
                          else ''pulse.mozilla.org''),
                         '':'', num_to_string 5671])
     else connectionString options)"

text \<open>\<open>connect\<close>, on a registry held by value, so that the deep copy of the entries is the
  entries. \<open>amqp\<close> is the broker: the error it rejects a connection string with, if any
  (the connection, the channel and the assertion of the exchanges).\<close>

definition connect ::
  "(string option \<Rightarrow> jsval option) \<Rightarrow> exchanges \<Rightarrow> options \<Rightarrow> error + publisher" where
  "connect amqp this call =
    (let options = call_options this call in
     if \<not> (given (connectionString options) \<or>
             (given (username (the_credentials options)) \<and>
              given (password (the_credentials options)))) then
       Inl (AssertionError ConnectionStringOrCredentials)
     else if validator options = None then Inl (AssertionError ValidatorMustBeGiven)
     else if drain options \<noteq> None \<and> \<not> given (component options) then
       Inl (AssertionError ComponentRequired)
     else if drain options \<noteq> None \<and> \<not> given (process options) then
       Inl (AssertionError ProcessRequired)
     else
       let exchangePrefix = connect_exchangePrefix options;
           options' = options\<lparr>connectionString := connect_connectionString options\<rparr>;
           es = entries this in
       (case amqp (connectionString options') of
          Some err \<Rightarrow> Inl (ConnectFailed err)
        | None \<Rightarrow> Publisher es exchangePrefix options'))"

text \<open>The reference document. An entry of a routing key keeps \<open>name\<close>, \<open>summary\<close>,
  \<open>constant\<close>, \<open>multipleWords\<close> and \<open>required\<close>.\<close>

record reference_entry =
  ref_exchange :: jsval
  ref_name :: jsval
  ref_title :: jsval
  ref_description :: jsval
  ref_routingKey :: "rkey list"
  ref_schema :: jsval

record reference_doc =
  doc_title :: "string option"
  doc_description :: "string option"
  doc_exchangePrefix :: "string option"
  doc_entries :: "reference_entry list"

definition reference_exchangePrefix :: "options \<Rightarrow> string option" where
  "reference_exchangePrefix options =
    (if given (username (the_credentials options))
     then Some (join ''/'' [''exchange'', join_elem (username (the_credentials options)),
                            join_elem (exchangePrefix options)])
     else exchangePrefix options)"

fun reference_entries :: "decl list \<Rightarrow> error + reference_entry list" where
  "reference_entries [] = Inr []"
| "reference_entries (entry # es) =
     (case routingKey entry of
        None \<Rightarrow> Inl TypeError
      | Some keys \<Rightarrow>
        (case reference_entries es of
           Inl e \<Rightarrow> Inl e
         | Inr rs \<Rightarrow>
             Inr (\<lparr>ref_exchange = exchange entry, ref_name = decl.name entry,
                   ref_title = decl.title entry, ref_description = decl.description entry,
                   ref_routingKey = map (\<lambda>key. key\<lparr>maxSize := Undefined\<rparr>) keys,
                   ref_schema = schema entry\<rparr> # rs)))"

text \<open>\<open>reference\<close>. \<open>meta_check\<close> is the check of the document against the schema of
  references: the errors, or \<open>null\<close>.\<close>

definition reference ::
  "(reference_doc \<Rightarrow> jsval) \<Rightarrow> exchanges \<Rightarrow> options \<Rightarrow> error + reference_doc" where
  "reference meta_check this call =
    (let options = call_options this call;
         exchangePrefix = reference_exchangePrefix options in
     if \<not> given (options.title options) then Inl (AssertionError TitleMustBeProvided)
     else if \<not> given (options.description options) then
       Inl (AssertionError DescriptionMustBeProvided)
     else
       (case reference_entries (entries this) of
          Inl e \<Rightarrow> Inl e
        | Inr rs \<Rightarrow>
           let doc = \<lparr>doc_title = options.title options,
                      doc_description = options.description options,
                      doc_exchangePrefix = exchangePrefix, doc_entries = rs\<rparr> in
           if truthy (meta_check doc) then Inl ReferenceSchemaFailed else Inr doc))"

section \<open>Publishing\<close>

text \<open>The word of one entry of the routing key, from the object that \<open>routingKeyBuilder\<close>
  returned.\<close>

definition encode_word :: "jsval \<Rightarrow> rkey \<Rightarrow> error + string" where
  "encode_word rk key =
    (case get_prop rk (rkey.name key) of
       Inl e \<Rightarrow> Inl e
     | Inr word0 \<Rightarrow>
       let word1 = (if truthy (constant key) then Value (constant key) else word0);
           word2 = (if \<not> truthy (required key) \<and>
                       (word1 = Value Undefined \<or> word1 = Value Null)
                    then Value (Str ''_'') else word1);
           word3 = (case word2 of
                      Value (Num n) \<Rightarrow> Value (Str (num_to_string n))
                    | _ \<Rightarrow> word2) in
       (case word3 of
          Value (Str word) \<Rightarrow>
            if \<not> num_le (int (length word)) (maxSize key) then
              Inl (AssertionError (WordLongerThanMaxSize word (rkey.name key)))
            else if \<not> truthy (multipleWords key) \<and> CHR ''.'' \<in> set word then
              Inl (AssertionError (WordCannotContainDot (rkey.name key) word))
            else Inr word
        | _ \<Rightarrow> Inl (AssertionError (NonStringRoutingKeyEntry (rkey.name key)))))"

text \<open>\<open>entry.routingKey.map(...)\<close>: the words in declared order, or the first failure.\<close>

fun encode_words :: "jsval \<Rightarrow> rkey list \<Rightarrow> error + string list" where
  "encode_words rk [] = Inr []"
| "encode_words rk (key # keys) =
     (case encode_word rk key of
        Inl e \<Rightarrow> Inl e
      | Inr word \<Rightarrow>
          (case encode_words rk keys of
             Inl e \<Rightarrow> Inl e
           | Inr ws \<Rightarrow> Inr (word # ws)))"

text \<open>The routing key of a message: the string that \<open>routingKeyBuilder\<close> returned, or the
  words joined by dots.\<close>

definition encode_routingKey :: "decl \<Rightarrow> jsval \<Rightarrow> error + string" where
  "encode_routingKey entry rk =
    (case rk of
       Str s \<Rightarrow> Inr s
     | _ \<Rightarrow>
       (case decl.routingKey entry of
          None \<Rightarrow> Inl TypeError
        | Some keys \<Rightarrow>
          (case encode_words rk keys of
             Inl e \<Rightarrow> Inl e
           | Inr ws \<Rightarrow> Inr (join ''.'' ws))))"

text \<open>A call of \<open>channel.publish\<close> (its constant options left out), and a point handed to
  the reporter of statistics.\<close>

record publish_call =
  to_exchange :: string
  with_routingKey :: string
  payload :: string
  CC :: "jsval list"

record point =
  component :: "string option"
  process :: "string option"
  duration :: rat
  routingKeys :: int
  payloadSize :: nat
  exchange :: string
  error :: jsval

text \<open>What is outside the publisher: \<open>JSON.stringify\<close> into bytes, for a message that has a
  serialization; the broker's answer to a call of \<open>channel.publish\<close> (the arguments \<open>err\<close> and
  \<open>val\<close> of the callback, or no answer); the time \<open>process.hrtime\<close> measures for it; and the
  object that a point is to a function that is handed one (its duration is no integer).\<close>

datatype answer = Callback jsval jsval | NoAnswer

record env =
  stringify :: "jsval \<Rightarrow> string"
  broker :: "publish_call \<Rightarrow> answer"
  hrtime :: "publish_call \<Rightarrow> nat \<times> nat"
  point_value :: "point \<Rightarrow> jsval"

text \<open>The calls of \<open>channel.publish\<close> and the points reported so far.\<close>

record world =
  published :: "publish_call list"
  reported :: "point list"

text \<open>
  What becomes of the promise of a call: accepted with the value of the broker, rejected
  with its error, still pending; rejected with an exception thrown while the promise was
  made; and left pending by a callback that threw.
\<close>

datatype outcome = Accepted jsval | Rejected jsval | Pending | Failed error | Abandoned error

text \<open>\<open>new Buffer(JSON.stringify(message), 'utf8')\<close>: \<open>JSON.stringify(undefined)\<close> is
  \<open>undefined\<close>, and of that \<open>Buffer\<close> makes a \<open>TypeError\<close>.\<close>

definition to_payload :: "env \<Rightarrow> jsval \<Rightarrow> error + string" where
  "to_payload ev message =
     (if message = Undefined then Inl TypeError else Inr (stringify ev message))"

text \<open>The method of the publisher under a name: the last entry of that name.\<close>

definition method_of :: "publisher \<Rightarrow> string \<Rightarrow> decl option" where
  "method_of that m =
     (case filter (\<lambda>entry. to_string (decl.name entry) = m) (pub_entries that) of
        [] \<Rightarrow> None
      | es \<Rightarrow> Some (last es))"

text \<open>
  The constructor keeps the options, the channel and the reporter in the properties
  \<open>_options\<close>, \<open>_channel\<close> and \<open>_reporter\<close> of the publisher, and then installs the methods as
  properties under the names of the entries: a method of one of these names takes the place
  of what the constructor kept there. The methods read \<open>exchangePrefix\<close>, \<open>entry\<close> and the
  \<open>component\<close> and \<open>process\<close> of \<open>options\<close> from the variables of the constructor, and the
  validator, the channel and the reporter from these properties.

  \<open>that._options.validator\<close>: \<open>undefined\<close> when a method is in the place of the options.
\<close>

definition the_validator :: "publisher \<Rightarrow> (jsval \<Rightarrow> jsval \<Rightarrow> jsval) option" where
  "the_validator that =
     (if method_of that ''_options'' \<noteq> None then None else validator (pub_options that))"

text \<open>
  A method up to \<open>new Promise\<close>: the builders, the assertion on the CC list, the validation,
  the routing key, the payload and the exchange. The result is the exception thrown, or the
  call of \<open>channel.publish\<close> to make.
\<close>

definition prepare :: "env \<Rightarrow> publisher \<Rightarrow> decl \<Rightarrow> jsval list \<Rightarrow> error + publish_call" where
  "prepare ev that entry args =
    (case (messageBuilder entry, routingKeyBuilder entry, decl.CCBuilder entry) of
       (Some mb, Some rb, Some cb) \<Rightarrow>
         let message = mb args; rk = rb args; CCs = cb args in
         (case CCs of
            Arr ccs \<Rightarrow>
              (case the_validator that of
                 None \<Rightarrow> Inl TypeError
               | Some check \<Rightarrow>
                 let errors = check message (schema entry) in
                 if truthy errors then Inl (MessageValidationFailed errors)
                 else
                   (case encode_routingKey entry rk of
                      Inl e \<Rightarrow> Inl e
                    | Inr key_string \<Rightarrow>
                      (case to_payload ev message of
                         Inl e \<Rightarrow> Inl e
                       | Inr pl \<Rightarrow>
                           Inr \<lparr>to_exchange = concat_elem (pub_exchangePrefix that) @
                                               to_string (decl.exchange entry),
                                with_routingKey = key_string, payload = pl, CC = ccs\<rparr>)))
          | _ \<Rightarrow> Inl (AssertionError CCBuilderMustReturnArray))
     | _ \<Rightarrow> Inl TypeError)"

text \<open>The point that the callback of \<open>channel.publish\<close> hands to the reporter.\<close>

definition point_of :: "env \<Rightarrow> publisher \<Rightarrow> publish_call \<Rightarrow> jsval \<Rightarrow> point" where
  "point_of ev that call err =
     \<lparr>component = options.component (pub_options that),
      process = options.process (pub_options that),
      duration = of_nat (fst (hrtime ev call)) * 1000 + of_nat (snd (hrtime ev call)) / 1000000,
      routingKeys = 1 + int (length (CC call)),
      payloadSize = length (payload call),
      exchange = to_exchange call,
      error = Str (if truthy err then ''true'' else ''false'')\<rparr>"

text \<open>
  The method of the publisher for one entry. The result is the exception thrown before
  the promise exists, or what becomes of the promise; the world is returned as the call
  leaves it.

  With a method in the place of the channel, \<open>that._channel.publish\<close> is no function: the
  promise is rejected and nothing is published. With a method in the place of the reporter,
  the callback calls this method with the point, which is a call of \<open>channel.publish\<close> of
  its own unless it throws; the answer to that call is a later event, and no point is
  reported.
\<close>

definition publish_entry ::
  "env \<Rightarrow> publisher \<Rightarrow> decl \<Rightarrow> jsval list \<Rightarrow> world \<Rightarrow> (error + outcome) \<times> world" where
  "publish_entry ev that entry args w =
    (case prepare ev that entry args of
       Inl e \<Rightarrow> (Inl e, w)
     | Inr call \<Rightarrow>
       if method_of that ''_channel'' \<noteq> None then (Inr (Failed TypeError), w)
       else
         let w1 = w\<lparr>published := published w @ [call]\<rparr> in
         (case broker ev call of
            NoAnswer \<Rightarrow> (Inr Pending, w1)
          | Callback err val \<Rightarrow>
            let settled = (if truthy err then Rejected err else Accepted val) in
            (case method_of that ''_reporter'' of
               Some reporter \<Rightarrow>
                 (case prepare ev that reporter [point_value ev (point_of ev that call err)] of
                    Inl e \<Rightarrow> (Inr (Abandoned e), w1)
                  | Inr call2 \<Rightarrow> (Inr settled, w1\<lparr>published := published w1 @ [call2]\<rparr>))
             | None \<Rightarrow>
                 (Inr settled,
                  if drain (pub_options that) \<noteq> None
                  then w1\<lparr>reported := reported w1 @ [point_of ev that call err]\<rparr>
                  else w1))))"

text \<open>A call of the method that the constructor installed under a name. Under a name that
  no entry has there is no such method, and the call is a \<open>TypeError\<close>; the other members of
  a publisher (\<open>close\<close>, those of an event emitter, the properties that the constructor
  keeps) are no methods of entries and are not called through \<open>publish\<close>.\<close>

definition publish ::
  "env \<Rightarrow> publisher \<Rightarrow> string \<Rightarrow> jsval list \<Rightarrow> world \<Rightarrow> (error + outcome) \<times> world" where
  "publish ev that m args w =
    (case method_of that m of
       None \<Rightarrow> (Inl TypeError, w)
     | Some entry \<Rightarrow> publish_entry ev that entry args w)"

section \<open>The notions the properties are stated with\<close>

text \<open>The \<open>maxSize\<close> of an entry once the length of a constant has been taken for a
  \<open>maxSize\<close> that is not set, the sizes of the entries of a routing key when each is a
  number, and the bytes a routing key of these sizes can take: the sizes and one
  separator for every entry after the first.\<close>

definition eff_maxSize :: "rkey \<Rightarrow> jsval" where
  "eff_maxSize key =
    (case constant key of
       Str c \<Rightarrow> if c \<noteq> [] \<and> \<not> truthy (maxSize key) then Num (int (length c)) else maxSize key
     | _ \<Rightarrow> maxSize key)"


definition budget :: "int list \<Rightarrow> int" where
  "budget ms = sum_list ms + int (length ms - 1)"

text \<open>What the loop still has to take from \<open>sizeLeft\<close> for entries of the sizes \<open>ms\<close>.\<close>

definition owed :: "loop_state \<Rightarrow> int list \<Rightarrow> int" where
  "owed st ms =
     sum_list ms + (if sizeLeft st \<noteq> 255 then int (length ms) else int (length ms - 1))"

text \<open>The number a \<open>maxSize\<close> is, \<open>0\<close> when it is none.\<close>

fun size_of :: "jsval \<Rightarrow> int" where
  "size_of (Num m) = m"
| "size_of v = 0"

text \<open>A routing key as the registry stores it: the names differ, \<open>multipleWords\<close> and
  \<open>required\<close> are booleans, at most one entry has \<open>multipleWords\<close>, every \<open>maxSize\<close> is a
  positive number, and together with the separators they stay within 255.\<close>

definition valid_routingKey :: "rkey list \<Rightarrow> bool" where
  "valid_routingKey keys \<longleftrightarrow>
     distinct (map rkey.name keys) \<and>
     list_all (\<lambda>key. typeof (multipleWords key) = TBoolean \<and>
                      typeof (required key) = TBoolean \<and>
                      typeof (maxSize key) = TNumber \<and> 0 < size_of (maxSize key)) keys \<and>
     length (filter (\<lambda>key. multipleWords key = Bool True) keys) \<le> 1 \<and>
     budget (map (\<lambda>key. size_of (maxSize key)) keys) \<le> 255"

definition valid_entry :: "decl \<Rightarrow> bool" where
  "valid_entry entry =
     (case decl.routingKey entry of None \<Rightarrow> False | Some keys \<Rightarrow> valid_routingKey keys)"

text \<open>What else holds of an entry the registry stores: its \<open>exchange\<close> and \<open>name\<close> are
  strings and its builders are functions; and of the registry: no two entries share an
  \<open>exchange\<close> or a \<open>name\<close>.\<close>

definition wf_entry :: "decl \<Rightarrow> bool" where
  "wf_entry entry \<longleftrightarrow>
     typeof (decl.exchange entry) = TString \<and> typeof (decl.name entry) = TString \<and>
     messageBuilder entry \<noteq> None \<and> routingKeyBuilder entry \<noteq> None \<and>
     CCBuilder entry \<noteq> None \<and> valid_entry entry"

definition wf_registry :: "exchanges \<Rightarrow> bool" where
  "wf_registry this \<longleftrightarrow>
     list_all wf_entry (entries this) \<and> distinct (map decl.name (entries this)) \<and>
     distinct (map decl.exchange (entries this))"

text \<open>A sequence of calls of \<open>configure\<close> and of calls of \<open>declare\<close> that succeed, on options
  handed over by value: the registry they end with, \<open>None\<close> when one of the calls of
  \<open>declare\<close> fails.\<close>

datatype call = Configure options | Declare decl

fun calls_on :: "exchanges \<Rightarrow> call list \<Rightarrow> exchanges option" where
  "calls_on this [] = Some this"
| "calls_on this (Configure options # calls) = calls_on (configure this options) calls"
| "calls_on this (Declare options # calls) =
     (case declare_exchange this options of
        Inl e \<Rightarrow> None
      | Inr this' \<Rightarrow> calls_on this' calls)"

section \<open>Declarations used as examples\<close>

definition field :: "string \<Rightarrow> jsval \<Rightarrow> rkey" where
  "field n m = \<lparr>rkey.name = n, summary = Str ''An entry of the routing key'',
     multipleWords = Undefined, required = Bool True, constant = Undefined, maxSize = m\<rparr>"

text \<open>A declaration whose message is the first argument of a call, whose routing key is
  the second and whose CC list are the arguments that follow.\<close>

definition sample :: "string \<Rightarrow> rkey list \<Rightarrow> decl" where
  "sample x keys = \<lparr>decl.exchange = Str x, decl.name = Str x,
     decl.title = Str ''Title'', decl.description = Str ''Description'',
     schema = Str ''message.json#'', routingKey = Some keys,
     messageBuilder = Some (\<lambda>args. case args of [] \<Rightarrow> Undefined | m # _ \<Rightarrow> m),
     routingKeyBuilder = Some (\<lambda>args. case args of _ # r # _ \<Rightarrow> r | _ \<Rightarrow> Undefined),
     CCBuilder = Some (\<lambda>args. Arr (drop 2 args))\<rparr>"

definition registry0 :: exchanges where
  "registry0 = \<lparr>entries = [],
     opts = no_options\<lparr>title := Some ''Title'', description := Some ''Description'',
       exchangePrefix := Some [], durableExchanges := Some True, schemaPrefix := Some []\<rparr>\<rparr>"

section \<open>A connection used as an example\<close>

definition options0 :: options where
  "options0 = no_options\<lparr>connectionString := Some ''amqp://localhost'',
     validator := Some (\<lambda>message schema. Null)\<rparr>"

definition env0 :: env where
  "env0 = \<lparr>stringify = (\<lambda>message. ''{}''), broker = (\<lambda>call. Callback Null (Bool True)),
     hrtime = (\<lambda>call. (0, 2000000)), point_value = (\<lambda>pt. Obj [])\<rparr>"

definition world0 :: world where
  "world0 = \<lparr>published = [], reported = []\<rparr>"

definition versioned_keys :: "rkey list" where
  "versioned_keys =
     [field ''taskId'' (Num 22),
      \<lparr>rkey.name = ''version'', summary = Str ''Version of the message'',
       multipleWords = Undefined, required = Bool True, constant = Str ''v1'',
       maxSize = Undefined\<rparr>,
      \<lparr>rkey.name = ''workerId'', summary = Str ''Worker, if any'',
       multipleWords = Undefined, required = Bool False, constant = Undefined,
       maxSize = Num 22\<rparr>]"

definition stored_keys :: "rkey list" where
  "stored_keys =
     [\<lparr>rkey.name = ''taskId'', summary = Str ''An entry of the routing key'',
       multipleWords = Bool False, required = Bool True, constant = Undefined,
       maxSize = Num 22\<rparr>,
      \<lparr>rkey.name = ''version'', summary = Str ''Version of the message'',
       multipleWords = Bool False, required = Bool True, constant = Str ''v1'',
       maxSize = Num 2\<rparr>,
      \<lparr>rkey.name = ''workerId'', summary = Str ''Worker, if any'',
       multipleWords = Bool False, required = Bool False, constant = Undefined,
       maxSize = Num 22\<rparr>]"

definition registry1 :: exchanges where
  "registry1 = registry0\<lparr>entries := [sample ''task-completed'' stored_keys]\<rparr>"

definition options1 :: options where
  "options1 = no_options\<lparr>connectionString := Some ''amqp://localhost'',
     validator := Some (\<lambda>message schema. Null), exchangePrefix := Some ''v1/'',
     credentials := Some \<lparr>username = Some ''user'', password = None, hostname = None\<rparr>\<rparr>"

definition options2 :: options where
  "options2 = no_options\<lparr>validator := Some (\<lambda>message schema. Null),
     exchangePrefix := Some ''v1/'',
     credentials := Some \<lparr>username = Some ''user'', password = Some ''secret'',
       hostname = None\<rparr>\<rparr>"

definition options3 :: options where
  "options3 = no_options\<lparr>connectionString := Some ''amqp://localhost'',
     validator := Some (\<lambda>message schema. if message = Null then Arr [Str ''no message''] else Null),
     exchangePrefix := Some ''v1/'', drain := Some 0, options.component := Some ''queue'',
     options.process := Some ''server''\<rparr>"

definition publisher3 :: publisher where
  "publisher3 = \<lparr>pub_entries = [sample ''task-completed'' stored_keys],
     pub_exchangePrefix = Some ''v1/'',
     pub_options = defaults options3 (opts registry0)\<lparr>credentials :=
       Some \<lparr>username = None, password = None, hostname = None\<rparr>\<rparr>\<rparr>"

definition registry2 :: exchanges where
  "registry2 = registry0\<lparr>entries := [sample ''_options'' stored_keys]\<rparr>"

definition publisher4 :: publisher where
  "publisher4 = publisher3\<lparr>pub_entries := [sample ''_options'' stored_keys]\<rparr>"

definition world1 :: world where
  "world1 = \<lparr>published = [\<lparr>to_exchange = ''v1/task-completed'',
       with_routingKey = ''abc.v1._'', payload = ''{}'', CC = [Str ''route.other'']\<rparr>],
     reported = [\<lparr>component = Some ''queue'', process = Some ''server'', duration = 2,
       routingKeys = 2, payloadSize = 2, exchange = ''v1/task-completed'',
       error = Str ''false''\<rparr>]\<rparr>"

section \<open>The registry and the publisher on a store\<close>

text \<open>
  The options of \<open>declare\<close>, their routing key and its entries are objects that the caller
  still holds after \<open>declare\<close> has stored them, and \<open>declare\<close> updates them in place. Here
  they live in a store: an entry of a routing key, an array of references (a routing key,
  the \<open>_entries\<close> of a registry), and the options of \<open>declare\<close>, which are the properties
  other than \<open>routingKey\<close> and the reference that \<open>routingKey\<close> holds (\<open>None\<close> when it holds no
  object).
\<close>

type_synonym addr = nat

datatype obj = KeyObj rkey | ArrayObj "addr list" | DeclObj decl "addr option"

record heap =
  cells :: "addr \<Rightarrow> obj option"
  lim :: addr

definition alloc :: "obj \<Rightarrow> heap \<Rightarrow> addr \<times> heap" where
  "alloc ob h = (lim h, h\<lparr>cells := (cells h)(lim h \<mapsto> ob), lim := Suc (lim h)\<rparr>)"

definition put :: "addr \<Rightarrow> obj \<Rightarrow> heap \<Rightarrow> heap" where
  "put a ob h = h\<lparr>cells := (cells h)(a \<mapsto> ob)\<rparr>"

fun refs :: "obj \<Rightarrow> addr set" where
  "refs (KeyObj key) = {}"
| "refs (ArrayObj as) = set as"
| "refs (DeclObj d r) = set_option r"

text \<open>Every object is below the limit of the store, and so is what it refers to.\<close>

definition wf_heap :: "heap \<Rightarrow> bool" where
  "wf_heap h \<longleftrightarrow> (\<forall>a ob. cells h a = Some ob \<longrightarrow> a < lim h \<and> refs ob \<subseteq> {..< lim h})"

text \<open>The values in the store: an entry of a routing key, the options of \<open>declare\<close> with
  their routing key, the entries of a registry or of a publisher. They are \<open>None\<close> where
  the store holds an object of another kind than the entries of a registry are made of.\<close>

definition load_key :: "heap \<Rightarrow> addr \<Rightarrow> rkey option" where
  "load_key h a = (case cells h a of Some (KeyObj key) \<Rightarrow> Some key | _ \<Rightarrow> None)"

definition load_decl :: "heap \<Rightarrow> addr \<Rightarrow> decl option" where
  "load_decl h a =
    (case cells h a of
       Some (DeclObj d r) \<Rightarrow>
         (case r of
            None \<Rightarrow> Some (d\<lparr>routingKey := None\<rparr>)
          | Some ra \<Rightarrow>
            (case cells h ra of
               Some (ArrayObj kas) \<Rightarrow>
                 map_option (\<lambda>keys. d\<lparr>routingKey := Some keys\<rparr>) (those (map (load_key h) kas))
             | _ \<Rightarrow> None))
     | _ \<Rightarrow> None)"

definition load_entries :: "heap \<Rightarrow> addr \<Rightarrow> decl list option" where
  "load_entries h ea =
    (case cells h ea of
       Some (ArrayObj es) \<Rightarrow> those (map (load_decl h) es)
     | _ \<Rightarrow> None)"

text \<open>The registry: the reference to its \<open>_entries\<close>, and its \<open>_options\<close>.\<close>

record exchanges_ref =
  entries_ref :: addr
  options_of :: options

text \<open>The loop of \<open>declare\<close> over a routing key in the store: every round reads the entry
  and writes it back as it leaves it. An element that is an array or the options of a
  declaration has no \<open>summary\<close>, and of the two only the options have a name; where there is
  no object, reading the name is a \<open>TypeError\<close>.\<close>

fun declare_keys_h :: "heap \<Rightarrow> loop_state \<Rightarrow> addr list \<Rightarrow> (error + loop_state) \<times> heap" where
  "declare_keys_h h st [] = (Inr st, h)"
| "declare_keys_h h st (a # as) =
     (case cells h a of
        Some (KeyObj key) \<Rightarrow>
          (case declare_key st key of
             (key', Inl e) \<Rightarrow> (Inl e, put a (KeyObj key') h)
           | (key', Inr st') \<Rightarrow> declare_keys_h (put a (KeyObj key') h) st' as)
      | Some (ArrayObj xs) \<Rightarrow> (Inl (AssertionError SummaryMustBeProvided), h)
      | Some (DeclObj d r) \<Rightarrow>
          (Inl (AssertionError
             (case decl.name d of
                Str n \<Rightarrow>
                  if n \<in> set (keyNames st) then TwoEntriesNamed n else SummaryMustBeProvided
              | _ \<Rightarrow> SummaryMustBeProvided)), h)
      | None \<Rightarrow> (Inl TypeError, h))"

text \<open>The properties of the stored entries that the loop over \<open>_entries\<close> reads.\<close>

definition load_head :: "heap \<Rightarrow> addr \<Rightarrow> decl option" where
  "load_head h a = (case cells h a of Some (DeclObj d r) \<Rightarrow> Some d | _ \<Rightarrow> None)"

text \<open>\<open>declare\<close> on the options at an address: the assertion that failed, if any, and the
  store as the call leaves it. Where there is no object, no options are given; an entry of
  a routing key and an array have no \<open>exchange\<close>.\<close>

definition declare_h :: "heap \<Rightarrow> exchanges_ref \<Rightarrow> addr \<Rightarrow> error option \<times> heap" where
  "declare_h h this a =
    (case cells h a of
       Some (DeclObj d r) \<Rightarrow>
         (case check_strings d of
            Some e \<Rightarrow> (Some e, h)
          | None \<Rightarrow>
            let d1 = prefixed (schemaPrefix (options_of this)) d;
                h1 = put a (DeclObj d1 r) h in
            (case r of
               None \<Rightarrow> (Some (AssertionError RoutingKeyMustBeArray), h1)
             | Some ra \<Rightarrow>
               (case cells h1 ra of
                  Some (ArrayObj kas) \<Rightarrow>
                    (case declare_keys_h h1 loop_init kas of
                       (Inl e, h2) \<Rightarrow> (Some e, h2)
                     | (Inr st, h2) \<Rightarrow>
                       if messageBuilder d1 = None then
                         (Some (AssertionError MessageBuilderMustBeFunction), h2)
                       else if routingKeyBuilder d1 = None then
                         (Some (AssertionError RoutingKeyBuilderMustBeFunction), h2)
                       else if CCBuilder d1 = None then
                         (Some (AssertionError CCBuilderMustBeFunction), h2)
                       else
                         (case cells h2 (entries_ref this) of
                            Some (ArrayObj es) \<Rightarrow>
                              (case those (map (load_head h2) es) of
                                 None \<Rightarrow> (Some TypeError, h2)
                               | Some ds \<Rightarrow>
                                 (case check_unique ds d1 of
                                    Some e \<Rightarrow> (Some e, h2)
                                  | None \<Rightarrow>
                                      (None, put (entries_ref this) (ArrayObj (es @ [a])) h2)))
                          | _ \<Rightarrow> (Some TypeError, h2)))
                | _ \<Rightarrow> (Some (AssertionError RoutingKeyMustBeArray), h1))))
     | Some _ \<Rightarrow> (Some (AssertionError (OptionMustBeString ''exchange'')), h)
     | None \<Rightarrow> (Some (AssertionError OptionsMustBeGiven), h))"

text \<open>\<open>_.cloneDeep\<close> of the entries of a registry: a new array of new options, each with a
  new routing key of new entries.\<close>

fun clone_each :: "(heap \<Rightarrow> addr \<Rightarrow> addr \<times> heap) \<Rightarrow> heap \<Rightarrow> addr list \<Rightarrow> addr list \<times> heap" where
  "clone_each f h [] = ([], h)"
| "clone_each f h (a # as) =
     (case f h a of (a', h1) \<Rightarrow> (case clone_each f h1 as of (as', h2) \<Rightarrow> (a' # as', h2)))"

definition clone_key :: "heap \<Rightarrow> addr \<Rightarrow> addr \<times> heap" where
  "clone_key h a = (case cells h a of Some (KeyObj key) \<Rightarrow> alloc (KeyObj key) h | _ \<Rightarrow> (a, h))"

definition clone_keys :: "heap \<Rightarrow> addr \<Rightarrow> addr \<times> heap" where
  "clone_keys h ra =
    (case cells h ra of
       Some (ArrayObj kas) \<Rightarrow>
         (case clone_each clone_key h kas of (kas', h1) \<Rightarrow> alloc (ArrayObj kas') h1)
     | _ \<Rightarrow> (ra, h))"

definition clone_decl :: "heap \<Rightarrow> addr \<Rightarrow> addr \<times> heap" where
  "clone_decl h a =
    (case cells h a of
       Some (DeclObj d r) \<Rightarrow>
         (case r of
            None \<Rightarrow> alloc (DeclObj d None) h
          | Some ra \<Rightarrow> (case clone_keys h ra of (ra', h1) \<Rightarrow> alloc (DeclObj d (Some ra')) h1))
     | _ \<Rightarrow> (a, h))"

definition cloneDeep :: "heap \<Rightarrow> addr \<Rightarrow> addr \<times> heap" where
  "cloneDeep h ea =
    (case cells h ea of
       Some (ArrayObj es) \<Rightarrow>
         (case clone_each clone_decl h es of (es', h1) \<Rightarrow> alloc (ArrayObj es') h1)
     | _ \<Rightarrow> (ea, h))"

text \<open>The publisher: the reference to its entries, its exchange prefix and its options.\<close>

record publisher_ref =
  entries_at :: addr
  prefix_of :: "string option"
  options_at :: options

text \<open>\<open>connect\<close> on a registry in the store: the assertions and the options as on a registry
  held by value, the entries a deep copy.\<close>

definition connect_h ::
  "(string option \<Rightarrow> jsval option) \<Rightarrow> heap \<Rightarrow> exchanges_ref \<Rightarrow> options \<Rightarrow>
     (error + publisher_ref) \<times> heap" where
  "connect_h amqp h this call =
    (case connect amqp \<lparr>entries = [], opts = options_of this\<rparr> call of
       Inl e \<Rightarrow> (Inl e, h)
     | Inr that \<Rightarrow>
         (case cloneDeep h (entries_ref this) of
            (ea, h1) \<Rightarrow>
              (Inr \<lparr>entries_at = ea, prefix_of = pub_exchangePrefix that,
                    options_at = pub_options that\<rparr>, h1)))"

text \<open>The publisher as its methods read it from the store, and a call of a method.\<close>

definition publisher_of :: "heap \<Rightarrow> publisher_ref \<Rightarrow> publisher option" where
  "publisher_of h that =
     map_option (\<lambda>es. \<lparr>pub_entries = es, pub_exchangePrefix = prefix_of that,
                       pub_options = options_at that\<rparr>) (load_entries h (entries_at that))"

definition publish_h ::
  "env \<Rightarrow> heap \<Rightarrow> publisher_ref \<Rightarrow> string \<Rightarrow> jsval list \<Rightarrow> world \<Rightarrow> (error + outcome) \<times> world" where
  "publish_h ev h that m args w =
    (case publisher_of h that of
       None \<Rightarrow> (Inl TypeError, w)
     | Some p \<Rightarrow> publish ev p m args w)"

text \<open>What the holder of a registry can do after \<open>connect\<close>: call \<open>declare\<close> and
  \<open>configure\<close>, make a new object, and update an object in place.\<close>

datatype hcall = DeclareH addr | ConfigureH options | NewObj obj | Update addr obj

fun hstep :: "heap \<times> exchanges_ref \<Rightarrow> hcall \<Rightarrow> heap \<times> exchanges_ref" where
  "hstep (h, this) (DeclareH a) = (snd (declare_h h this a), this)"
| "hstep (h, this) (ConfigureH options) =
     (h, this\<lparr>options_of := defaults options (options_of this)\<rparr>)"
| "hstep (h, this) (NewObj ob) = (snd (alloc ob h), this)"
| "hstep (h, this) (Update a ob) = (if a < lim h then put a ob h else h, this)"

text \<open>A call that does not use a reference into the addresses \<open>S\<close>.\<close>

fun outside :: "addr set \<Rightarrow> hcall \<Rightarrow> bool" where
  "outside S (DeclareH a) = (a \<notin> S)"
| "outside S (ConfigureH options) = True"
| "outside S (NewObj ob) = (refs ob \<inter> S = {})"
| "outside S (Update a ob) = (a \<notin> S \<and> refs ob \<inter> S = {})"

text \<open>The store \<open>h1\<close> is \<open>h\<close> and new objects that refer to addresses from \<open>b\<close> on only.\<close>

definition grows :: "addr \<Rightarrow> heap \<Rightarrow> heap \<Rightarrow> bool" where
  "grows b h h1 \<longleftrightarrow>
     lim h \<le> lim h1 \<and> (\<forall>a. a < lim h \<longrightarrow> cells h1 a = cells h a) \<and>
     (\<forall>a ob. lim h \<le> a \<longrightarrow> cells h1 a = Some ob \<longrightarrow> refs ob \<subseteq> {b ..< lim h1})"

text \<open>The objects at the addresses \<open>S\<close> are in \<open>h\<close> what they were in \<open>h0\<close>, and no object
  elsewhere refers to them.\<close>

definition confined :: "addr set \<Rightarrow> heap \<Rightarrow> heap \<Rightarrow> bool" where
  "confined S h0 h \<longleftrightarrow>
     (\<forall>a\<in>S. cells h a = cells h0 a) \<and>
     (\<forall>a ob. a \<notin> S \<longrightarrow> cells h a = Some ob \<longrightarrow> refs ob \<inter> S = {}) \<and>
     S \<subseteq> {..< lim h}"





definition keeps_valid :: "heap \<Rightarrow> heap \<Rightarrow> bool" where
  "keeps_valid h h' \<longleftrightarrow>
     (\<forall>e d. load_decl h e = Some d \<and> valid_entry d \<longrightarrow>
            (\<exists>d'. load_decl h' e = Some d' \<and> valid_entry d'))"


text \<open>A store with a registry that holds one declaration, and calls made after \<open>connect\<close>:
  a new maximal size for the declared entry, a schema prefix, and the same options declared
  again.\<close>

definition registry_at_0 :: exchanges_ref where
  "registry_at_0 = \<lparr>entries_ref = 0, options_of = opts registry0\<rparr>"

definition heap1 :: heap where
  "heap1 = \<lparr>cells = (\<lambda>a. None)(0 \<mapsto> ArrayObj [3], 1 \<mapsto> KeyObj (hd stored_keys),
     2 \<mapsto> ArrayObj [1], 3 \<mapsto> DeclObj (sample ''task-completed'' []) (Some 2)), lim = 4\<rparr>"

definition heap2 :: heap where
  "heap2 = \<lparr>cells = (cells heap1)(4 \<mapsto> KeyObj (hd stored_keys), 5 \<mapsto> ArrayObj [4],
     6 \<mapsto> DeclObj (sample ''task-completed'' []) (Some 5), 7 \<mapsto> ArrayObj [6]), lim = 8\<rparr>"

definition publisher_at_7 :: publisher_ref where
  "publisher_at_7 = \<lparr>entries_at = 7, prefix_of = Some ''v1/'',
     options_at = pub_options publisher3\<rparr>"

definition later_calls :: "hcall list" where
  "later_calls = [Update 1 (KeyObj ((hd stored_keys)\<lparr>maxSize := Num 300\<rparr>)),
     ConfigureH (no_options\<lparr>schemaPrefix := Some ''http://schemas/''\<rparr>), DeclareH 3]"

text \<open>The store before the declaration is declared: the registry has no entry, and the
  options at address 3 are as the caller wrote them.\<close>

definition heap0 :: heap where
  "heap0 = \<lparr>cells = (\<lambda>a. None)(0 \<mapsto> ArrayObj [], 1 \<mapsto> KeyObj (field ''taskId'' (Num 22)),
     2 \<mapsto> ArrayObj [1], 3 \<mapsto> DeclObj (sample ''task-completed'' []) (Some 2)), lim = 4\<rparr>"





section \<open>Properties of \<open>declare\<close>\<close>

lemma typeof_string: "typeof v = TString \<longleftrightarrow> (\<exists>s. v = Str s)"
  by (cases v) auto

lemma declare_key_fields:
  assumes "declare_key st k = (k', Inr st')"
  shows "rkey.name k' = rkey.name k" and "constant k' = constant k"
    and "summary k' = summary k"
    and "required k' = Bool (truthy (required k))"
    and "multipleWords k' = Bool (truthy (multipleWords k))"
    and "maxSize k' = eff_maxSize k"
    and "truthy (constant k) \<Longrightarrow> \<exists>c. constant k = Str c \<and> c \<noteq> []"
  using assms
  by (auto simp: declare_key_def Let_def eff_maxSize_def typeof_string
      split: if_splits jsval.splits)

lemma declare_key_state:
  assumes "declare_key st k = (k', Inr st')"
  shows "keyNames st' = keyNames st @ [rkey.name k]" and "rkey.name k \<notin> set (keyNames st)"
    and "firstMultiWordKey st' =
       (if truthy (multipleWords k) then Some (rkey.name k) else firstMultiWordKey st)"
    and "truthy (multipleWords k) \<Longrightarrow> firstMultiWordKey st = None"
  using assms
  by (auto simp: declare_key_def Let_def split: if_splits jsval.splits)

lemma declare_keys_all2:
  "declare_keys st ks = Inr (ks', st') \<Longrightarrow>
     list_all2 (\<lambda>k k'. \<exists>s s'. declare_key s k = (k', Inr s')) ks ks'"
proof (induction ks arbitrary: st ks')
  case Nil
  then show ?case by simp
next
  case (Cons k ks)
  then show ?case
    by (auto split: prod.splits sum.splits)
qed


lemma declare_key_Inr:
  assumes "declare_key st k = (k', Inr st')"
  shows "\<exists>m. maxSize k' = Num m \<and> 0 < m \<and> eff_maxSize k = Num m \<and>
     sizeLeft st' = (if sizeLeft st \<noteq> 255 then sizeLeft st - 1 else sizeLeft st) - m \<and>
     0 \<le> sizeLeft st'"
  using assms
  by (auto simp: declare_key_def Let_def eff_maxSize_def typeof_string
      split: if_splits jsval.splits)

lemma declare_keys_names:
  "declare_keys st ks = Inr (ks', st') \<Longrightarrow>
     distinct (map rkey.name ks) \<and> set (map rkey.name ks) \<inter> set (keyNames st) = {} \<and>
     map rkey.name ks' = map rkey.name ks"
proof (induction ks arbitrary: st ks')
  case Nil
  then show ?case by simp
next
  case (Cons k ks)
  from Cons.prems obtain k' st1 ks1 where
    step: "declare_key st k = (k', Inr st1)" and rest: "declare_keys st1 ks = Inr (ks1, st')"
    and ks': "ks' = k' # ks1"
    by (auto split: prod.splits sum.splits)
  from Cons.IH [OF rest] declare_key_state(1,2) [OF step] declare_key_fields(1) [OF step] ks'
  show ?case by auto
qed

lemma declare_keys_multi:
  "declare_keys st ks = Inr (ks', st') \<Longrightarrow>
     length (filter (\<lambda>key. multipleWords key = Bool True) ks') \<le>
       (if firstMultiWordKey st = None then 1 else 0)"
proof (induction ks arbitrary: st ks')
  case Nil
  then show ?case by simp
next
  case (Cons k ks)
  from Cons.prems obtain k' st1 ks1 where
    step: "declare_key st k = (k', Inr st1)" and rest: "declare_keys st1 ks = Inr (ks1, st')"
    and ks': "ks' = k' # ks1"
    by (auto split: prod.splits sum.splits)
  from Cons.IH [OF rest] declare_key_state(3,4) [OF step] declare_key_fields(5) [OF step] ks'
  show ?case by (auto split: if_splits)
qed

lemma declare_keys_sizes:
  "declare_keys st ks = Inr (ks', st') \<Longrightarrow> 0 \<le> sizeLeft st \<Longrightarrow> sizeLeft st \<le> 255 \<Longrightarrow>
     owed st (map (\<lambda>key. size_of (maxSize key)) ks') \<le> sizeLeft st"
proof (induction ks arbitrary: st ks')
  case Nil
  then show ?case by (auto simp: owed_def)
next
  case (Cons k ks)
  from Cons.prems(1) obtain k' st1 ks1 where
    step: "declare_key st k = (k', Inr st1)" and rest: "declare_keys st1 ks = Inr (ks1, st')"
    and ks': "ks' = k' # ks1"
    by (auto split: prod.splits sum.splits)
  from declare_key_Inr [OF step] obtain m where
    m: "maxSize k' = Num m" "0 < m"
      "sizeLeft st1 = (if sizeLeft st \<noteq> 255 then sizeLeft st - 1 else sizeLeft st) - m"
      "0 \<le> sizeLeft st1" by blast
  with Cons.prems have le: "sizeLeft st1 \<le> 255" "sizeLeft st1 \<noteq> 255" by auto
  from Cons.IH [OF rest m(4) le(1)] m le ks' show ?case
    by (auto simp: owed_def split: if_splits)
qed

lemma list_all2_right:
  "list_all2 R xs ys \<Longrightarrow> (\<And>x y. R x y \<Longrightarrow> P y) \<Longrightarrow> list_all P ys"
  by (induction rule: list_all2_induct) auto

lemma declare_key_valid:
  assumes "declare_key st k = (k', Inr st')"
  shows "typeof (multipleWords k') = TBoolean \<and> typeof (required k') = TBoolean \<and>
         typeof (maxSize k') = TNumber \<and> 0 < size_of (maxSize k')"
  using declare_key_fields(4,5) [OF assms] declare_key_Inr [OF assms] by auto

lemma declare_keys_valid:
  assumes "declare_keys loop_init ks = Inr (ks', st')"
  shows "valid_routingKey ks'"
proof -
  have "list_all (\<lambda>key. typeof (multipleWords key) = TBoolean \<and>
                      typeof (required key) = TBoolean \<and>
                      typeof (maxSize key) = TNumber \<and> 0 < size_of (maxSize key)) ks'"
    by (rule list_all2_right [OF declare_keys_all2 [OF assms]]) (auto dest: declare_key_valid)
  moreover have "budget (map (\<lambda>key. size_of (maxSize key)) ks') \<le> 255"
    using declare_keys_sizes [OF assms] by (simp add: loop_init_def owed_def budget_def)
  moreover have "length (filter (\<lambda>key. multipleWords key = Bool True) ks') \<le> 1"
    using declare_keys_multi [OF assms] by (simp add: loop_init_def)
  moreover have "distinct (map rkey.name ks')"
    using declare_keys_names [OF assms] by simp
  ultimately show ?thesis by (simp add: valid_routingKey_def)
qed

lemma check_strings_None:
  "check_strings d = None \<longleftrightarrow> typeof (decl.exchange d) = TString \<and> typeof (decl.name d) = TString \<and>
     typeof (decl.title d) = TString \<and> typeof (decl.description d) = TString \<and>
     typeof (schema d) = TString"
  by (simp add: check_strings_def)

lemma declare_exchange_Inr:
  assumes "declare_exchange this d = Inr this'"
  shows "\<exists>ks ks' st. decl.routingKey d = Some ks \<and> declare_keys loop_init ks = Inr (ks', st) \<and>
    this' = this\<lparr>entries := entries this @ [(prefixed (schemaPrefix (opts this)) d)\<lparr>routingKey := Some ks'\<rparr>]\<rparr> \<and>
    check_strings d = None \<and>
    check_unique (entries this) ((prefixed (schemaPrefix (opts this)) d)\<lparr>routingKey := Some ks'\<rparr>) = None \<and>
    messageBuilder d \<noteq> None \<and> routingKeyBuilder d \<noteq> None \<and> CCBuilder d \<noteq> None"
  using assms
  by (auto simp: declare_exchange_def prefixed_def Let_def
      split: option.splits sum.splits if_splits prod.splits)








lemma prefixed_routingKey [simp]: "decl.routingKey (prefixed (schemaPrefix (opts this)) d) = decl.routingKey d"
  by (simp add: prefixed_def split: option.splits)





section \<open>Properties of the routing key of a message\<close>

lemma encode_words_all2:
  "encode_words rk ks = Inr ws \<Longrightarrow> list_all2 (\<lambda>k w. encode_word rk k = Inr w) ks ws"
  by (induction ks arbitrary: ws) (auto split: sum.splits)

lemma get_prop_examples:
  "get_prop (Obj []) ''constructor'' = Inr Builtin"
  "get_prop (Obj [(''constructor'', Null)]) ''constructor'' = Inr (Value Null)"
  "get_prop (Obj [(''taskId'', Str ''abc'')]) ''workerId'' = Inr (Value Undefined)"
  "get_prop (Arr [Str ''a'', Str ''b'']) ''length'' = Inr (Value (Num 2))"
  "get_prop (Num 5) ''toFixed'' = Inr Builtin"
  "get_prop (Bool True) ''taskId'' = Inr (Value Undefined)"
  by (simp_all add: inherited_def object_prototype_def number_prototype_def)

lemma encode_word_constant:
  assumes "encode_word rk k = Inr w" and "constant k = Str c" and "c \<noteq> []"
  shows "w = c"
  using assms
  by (auto simp: encode_word_def Let_def split: sum.splits if_splits jsval.splits found.splits)

lemma encode_word_placeholder:
  assumes "\<not> truthy (required k)" and "\<not> truthy (constant k)"
    and "get_prop rk (rkey.name k) = Inr (Value v)" and "v = Undefined \<or> v = Null"
    and "maxSize k = Num m" and "0 < m"
  shows "encode_word rk k = Inr ''_''"
  using assms
  by (auto simp: encode_word_def Let_def num_le_def)

lemma encode_word_kept:
  assumes "\<not> truthy (constant k)" and "get_prop rk (rkey.name k) = Inr (Value (Str w))"
    and "maxSize k = Num m" and "int (length w) \<le> m" and "CHR ''.'' \<notin> set w"
  shows "encode_word rk k = Inr w"
  using assms
  by (auto simp: encode_word_def Let_def num_le_def)

lemma encode_word_nodot:
  assumes "encode_word rk k = Inr w" and "\<not> truthy (multipleWords k)"
  shows "CHR ''.'' \<notin> set w"
  using assms
  by (auto simp: encode_word_def Let_def split: sum.splits if_splits jsval.splits found.splits)

lemma split_no_sep: "c \<notin> set w \<Longrightarrow> split c w = [w]"
  by (induction w) auto

lemma split_append_sep: "c \<notin> set w \<Longrightarrow> split c (w @ c # r) = w # split c r"
  by (induction w) auto

lemma split_join:
  "ws \<noteq> [] \<Longrightarrow> \<forall>w\<in>set ws. c \<notin> set w \<Longrightarrow> split c (join [c] ws) = ws"
  by (induction "[c]" ws rule: join.induct) (auto simp: split_no_sep split_append_sep)

lemma encode_routingKey_words:
  assumes "encode_routingKey entry rk = Inr s" and "typeof rk \<noteq> TString"
    and "decl.routingKey entry = Some keys"
  shows "\<exists>ws. encode_words rk keys = Inr ws \<and> s = join ''.'' ws"
  using assms
  by (cases rk) (auto simp: encode_routingKey_def split: sum.splits)

lemma check_unique_cong:
  "decl.exchange d' = decl.exchange d \<Longrightarrow> decl.name d' = decl.name d \<Longrightarrow>
     check_unique es d' = check_unique es d"
  by (induction es) auto

lemma prefixed_names [simp]:
  "decl.exchange (prefixed (schemaPrefix (opts this)) d) = decl.exchange d" "decl.name (prefixed (schemaPrefix (opts this)) d) = decl.name d"
  "messageBuilder (prefixed (schemaPrefix (opts this)) d) = messageBuilder d"
  "routingKeyBuilder (prefixed (schemaPrefix (opts this)) d) = routingKeyBuilder d"
  "CCBuilder (prefixed (schemaPrefix (opts this)) d) = CCBuilder d"
  by (simp_all add: prefixed_def split: option.splits)

lemma declare_exchange_ok:
  assumes "check_strings d = None" and "decl.routingKey d = Some ks"
    and "declare_keys loop_init ks = Inr (ks', st)"
    and "messageBuilder d \<noteq> None" and "routingKeyBuilder d \<noteq> None" and "CCBuilder d \<noteq> None"
    and "check_unique (entries this) d = None"
  shows "declare_exchange this d =
     Inr (this\<lparr>entries := entries this @ [(prefixed (schemaPrefix (opts this)) d)\<lparr>routingKey := Some ks'\<rparr>]\<rparr>)"
proof -
  have "check_unique (entries this) ((prefixed (schemaPrefix (opts this)) d)\<lparr>routingKey := Some ks'\<rparr>) =
      check_unique (entries this) d"
    by (rule check_unique_cong) simp_all
  with assms show ?thesis
    by (simp add: declare_exchange_def Let_def)
qed

text \<open>
  C4, as amended. Declaring an exchange whose routing key is the single entry
  \<open>provisionerId\<close> with a summary (any string), \<open>maxSize\<close> 22 and \<open>required\<close> true succeeds
  when the rest of the declaration is in order, and the routing key of a message whose
  \<open>provisionerId\<close> is \<open>aws-prov\<close> is \<open>aws-prov\<close>.
\<close>

theorem scenario_A:
  assumes "check_strings options = None"
    and "messageBuilder options \<noteq> None" and "routingKeyBuilder options \<noteq> None"
    and "CCBuilder options \<noteq> None"
    and "check_unique (entries this) options = None"
    and "decl.routingKey options = Some [\<lparr>rkey.name = ''provisionerId'', summary = Str s,
           multipleWords = Undefined, required = Bool True, constant = Undefined,
           maxSize = Num 22\<rparr>]"
  shows "\<exists>this'. declare_exchange this options = Inr this' \<and>
     encode_routingKey (last (entries this')) (Obj [(''provisionerId'', Str ''aws-prov'')]) =
       Inr ''aws-prov''"
proof -
  let ?k = "\<lparr>rkey.name = ''provisionerId'', summary = Str s,
           multipleWords = Undefined, required = Bool True, constant = Undefined,
           maxSize = Num 22\<rparr>"
  let ?k' = "?k\<lparr>multipleWords := Bool False, required := Bool True\<rparr>"
  have "declare_keys loop_init [?k] =
     Inr ([?k'], \<lparr>keyNames = [''provisionerId''], sizeLeft = 233, firstMultiWordKey = None\<rparr>)"
    by (simp add: declare_key_def loop_init_def)
  from declare_exchange_ok [OF assms(1) assms(6) this assms(2-5)]
  have d: "declare_exchange this options =
     Inr (this\<lparr>entries := entries this @ [(prefixed (schemaPrefix (opts this)) options)\<lparr>routingKey := Some [?k']\<rparr>]\<rparr>)" .
  have "encode_routingKey ((prefixed (schemaPrefix (opts this)) options)\<lparr>routingKey := Some [?k']\<rparr>)
      (Obj [(''provisionerId'', Str ''aws-prov'')]) = Inr ''aws-prov''"
    by (simp add: encode_routingKey_def encode_word_def num_le_def)
  with d show ?thesis by simp
qed


theorem scenario_A_witness:
  "\<exists>this'. declare_exchange registry0 (sample ''task-defined''
       [\<lparr>rkey.name = ''provisionerId'', summary = Str ''Provisioner'',
         multipleWords = Undefined, required = Bool True, constant = Undefined,
         maxSize = Num 22\<rparr>]) = Inr this' \<and>
     encode_routingKey (last (entries this')) (Obj [(''provisionerId'', Str ''aws-prov'')]) =
       Inr ''aws-prov''"
  using scenario_A [of "sample ''task-defined''
       [\<lparr>rkey.name = ''provisionerId'', summary = Str ''Provisioner'',
         multipleWords = Undefined, required = Bool True, constant = Undefined,
         maxSize = Num 22\<rparr>]" registry0 "''Provisioner''"]
  by (simp add: sample_def registry0_def check_strings_def)

text \<open>
  C4, as stated: the entry \<open>{name: "provisionerId", maxSize: 22, required: true}\<close> has no
  summary, and \<open>declare\<close> refuses it.
\<close>

theorem scenario_A_counterexample:
  "declare_exchange registry0 (sample ''task-defined''
       [\<lparr>rkey.name = ''provisionerId'', summary = Undefined,
         multipleWords = Undefined, required = Bool True, constant = Undefined,
         maxSize = Num 22\<rparr>]) = Inl (AssertionError SummaryMustBeProvided)"
  by (simp add: declare_exchange_def sample_def registry0_def check_strings_def prefixed_def
      no_options_def declare_key_def loop_init_def)

lemma scenario_A_published:
  "\<exists>this' that w. declare_exchange registry0 (sample ''task-defined''
       [\<lparr>rkey.name = ''provisionerId'', summary = Str ''Provisioner'',
         multipleWords = Undefined, required = Bool True, constant = Undefined,
         maxSize = Num 22\<rparr>]) = Inr this' \<and>
     connect (\<lambda>c. None) this' options0 = Inr that \<and>
     publish env0 that ''task-defined''
       [Obj [], Obj [(''provisionerId'', Str ''aws-prov'')]] world0 =
       (Inr (Accepted (Bool True)), w) \<and>
     map with_routingKey (published w) = [''aws-prov'']"
  by (simp add: declare_exchange_def sample_def registry0_def check_strings_def prefixed_def
      no_options_def declare_key_def loop_init_def connect_def call_options_def defaults_def
      options0_def the_credentials_def Publisher_def connect_exchangePrefix_def
      connect_connectionString_def publish_def method_of_def publish_entry_def env0_def
      the_validator_def prepare_def to_payload_def point_of_def
      world0_def encode_routingKey_def encode_word_def num_le_def Let_def)

lemma declare_exchange_stored:
  assumes "declare_exchange this options = Inr this'" and "decl.routingKey options = Some keys"
  shows "\<exists>keys' st. declare_keys loop_init keys = Inr (keys', st) \<and>
     decl.routingKey (last (entries this')) = Some keys' \<and> length keys' = length keys"
proof -
  from declare_exchange_Inr [OF assms(1)] assms(2) obtain ks' st where
    k: "declare_keys loop_init keys = Inr (ks', st)"
      "this' = this\<lparr>entries := entries this @ [(prefixed (schemaPrefix (opts this)) options)\<lparr>routingKey := Some ks'\<rparr>]\<rparr>"
    by auto
  from declare_keys_all2 [OF k(1)] have "length ks' = length keys"
    by (simp add: list_all2_lengthD)
  with k show ?thesis by simp
qed

text \<open>
  C5. An entry declared with a constant that is not empty and no \<open>maxSize\<close> is stored with
  the length of the constant as its \<open>maxSize\<close>, and every routing key encoded for the
  declaration from an object has the constant as the word at the place of the entry,
  whatever the object holds for it.
\<close>

theorem constant_field:
  assumes "declare_exchange this options = Inr this'"
    and "decl.routingKey options = Some keys" and "i < length keys"
    and "constant (keys ! i) = Str c" and "c \<noteq> []" and "\<not> truthy (maxSize (keys ! i))"
  shows "\<exists>keys'. decl.routingKey (last (entries this')) = Some keys' \<and>
     length keys' = length keys \<and> maxSize (keys' ! i) = Num (int (length c)) \<and>
     (\<forall>rk s. typeof rk \<noteq> TString \<and> encode_routingKey (last (entries this')) rk = Inr s \<longrightarrow>
        (\<exists>ws. s = join ''.'' ws \<and> length ws = length keys \<and> ws ! i = c))"
proof -
  from declare_exchange_stored [OF assms(1,2)] obtain keys' st where
    k: "declare_keys loop_init keys = Inr (keys', st)"
      "decl.routingKey (last (entries this')) = Some keys'" "length keys' = length keys"
    by blast
  from declare_keys_all2 [OF k(1)] assms(3) obtain s s' where
    step: "declare_key s (keys ! i) = (keys' ! i, Inr s')"
    by (auto simp: list_all2_conv_all_nth)
  from declare_key_fields(2,6) [OF step] assms(4-6)
  have c: "constant (keys' ! i) = Str c" "maxSize (keys' ! i) = Num (int (length c))"
    by (simp_all add: eff_maxSize_def)
  have "\<exists>ws. s = join ''.'' ws \<and> length ws = length keys \<and> ws ! i = c"
    if "typeof rk \<noteq> TString" and "encode_routingKey (last (entries this')) rk = Inr s" for rk s
  proof -
    from encode_routingKey_words [OF that(2,1) k(2)] obtain ws where
      ws: "encode_words rk keys' = Inr ws" "s = join ''.'' ws" by blast
    from encode_words_all2 [OF ws(1)] assms(3) k(3)
    have "length ws = length keys" "encode_word rk (keys' ! i) = Inr (ws ! i)"
      by (auto simp: list_all2_conv_all_nth)
    with encode_word_constant [OF _ c(1) assms(5)] ws(2) show ?thesis by blast
  qed
  with k c show ?thesis by blast
qed

text \<open>
  C6, as amended. For a declared entry that is not required and has no constant, and an
  object of \<open>routingKeyBuilder\<close> in which the lookup of the name of the entry gives
  \<open>undefined\<close> (no property of that name, own or inherited) or \<open>null\<close>, the word of the entry
  is \<open>_\<close>.
\<close>

theorem optional_field:
  assumes "declare_exchange this options = Inr this'"
    and "decl.routingKey options = Some keys" and "i < length keys"
    and "\<not> truthy (required (keys ! i))" and "\<not> truthy (constant (keys ! i))"
    and "get_prop rk (rkey.name (keys ! i)) = Inr (Value v)" and "v = Undefined \<or> v = Null"
  shows "\<exists>keys'. decl.routingKey (last (entries this')) = Some keys' \<and>
     length keys' = length keys \<and> encode_word rk (keys' ! i) = Inr ''_'' \<and>
     (\<forall>ws. encode_words rk keys' = Inr ws \<longrightarrow> ws ! i = ''_'')"
proof -
  from declare_exchange_stored [OF assms(1,2)] obtain keys' st where
    k: "declare_keys loop_init keys = Inr (keys', st)"
      "decl.routingKey (last (entries this')) = Some keys'" "length keys' = length keys"
    by blast
  from declare_keys_all2 [OF k(1)] assms(3) obtain s s' where
    step: "declare_key s (keys ! i) = (keys' ! i, Inr s')"
    by (auto simp: list_all2_conv_all_nth)
  from declare_key_Inr [OF step] obtain m where m: "maxSize (keys' ! i) = Num m" "0 < m"
    by blast
  from declare_key_fields(1,2,4) [OF step] assms(4,5,6)
  have "\<not> truthy (required (keys' ! i))" "\<not> truthy (constant (keys' ! i))"
    "get_prop rk (rkey.name (keys' ! i)) = Inr (Value v)" by simp_all
  from encode_word_placeholder [OF this assms(7) m]
  have w: "encode_word rk (keys' ! i) = Inr ''_''" .
  have "ws ! i = ''_''" if "encode_words rk keys' = Inr ws" for ws
    using encode_words_all2 [OF that] assms(3) k(3) w
    by (auto simp: list_all2_conv_all_nth)
  with k w show ?thesis by blast
qed

text \<open>
  C7, as amended. For a declaration with at least one entry in its routing key and none
  with \<open>multipleWords\<close>, a routing key encoded from an object splits at the dots into as
  many words as there are entries, the i-th the word of the i-th entry.
\<close>

theorem split_routingKey:
  assumes "decl.routingKey entry = Some keys" and "keys \<noteq> []"
    and "\<forall>key\<in>set keys. \<not> truthy (multipleWords key)"
    and "typeof rk \<noteq> TString" and "encode_routingKey entry rk = Inr s"
  shows "length (split CHR ''.'' s) = length keys \<and>
     (\<forall>i<length keys. encode_word rk (keys ! i) = Inr (split CHR ''.'' s ! i))"
proof -
  from encode_routingKey_words [OF assms(5,4,1)] obtain ws where
    ws: "encode_words rk keys = Inr ws" "s = join ''.'' ws" by blast
  from encode_words_all2 [OF ws(1)]
  have a: "length ws = length keys" "\<forall>i<length keys. encode_word rk (keys ! i) = Inr (ws ! i)"
    by (auto simp: list_all2_conv_all_nth)
  have "\<forall>w\<in>set ws. CHR ''.'' \<notin> set w"
  proof
    fix w assume "w \<in> set ws"
    then obtain i where "i < length ws" "ws ! i = w" by (auto simp: in_set_conv_nth)
    with a assms(3) encode_word_nodot [of rk "keys ! i" w] show "CHR ''.'' \<notin> set w"
      by auto
  qed
  moreover from a assms(2) have "ws \<noteq> []" by auto
  ultimately have "split CHR ''.'' s = ws" using ws(2) split_join by simp
  with a show ?thesis by simp
qed

lemma versioned_declared:
  "declare_exchange registry0 (sample ''task-completed'' versioned_keys) = Inr registry1"
  by (simp add: versioned_keys_def stored_keys_def registry1_def declare_exchange_def sample_def
      registry0_def check_strings_def prefixed_def no_options_def declare_key_def loop_init_def
      field_def)

lemma versioned_routingKey:
  "decl.routingKey (sample ''task-completed'' versioned_keys) = Some versioned_keys"
  by (simp add: sample_def)

lemma registry1_last:
  "last (entries registry1) = sample ''task-completed'' stored_keys"
  by (simp add: registry1_def)

lemma encode_stored:
  "encode_routingKey (sample ''task-completed'' stored_keys)
     (Obj [(''taskId'', Str ''abc''), (''version'', Str ''v2'')]) = Inr ''abc.v1._''"
  by (simp add: sample_def stored_keys_def encode_routingKey_def encode_word_def num_le_def
      inherited_def object_prototype_def)

theorem constant_field_witness:
  "declare_exchange registry0 (sample ''task-completed'' versioned_keys) = Inr registry1 \<and>
   (\<exists>keys'. decl.routingKey (last (entries registry1)) = Some keys' \<and>
     maxSize (keys' ! 1) = Num 2) \<and>
   encode_routingKey (last (entries registry1))
     (Obj [(''taskId'', Str ''abc''), (''version'', Str ''v2'')]) = Inr ''abc.v1._''"
proof -
  have "1 < length versioned_keys" "constant (versioned_keys ! 1) = Str ''v1''"
    "''v1'' \<noteq> []" "\<not> truthy (maxSize (versioned_keys ! 1))"
    by (simp_all add: versioned_keys_def)
  from constant_field [OF versioned_declared versioned_routingKey this]
  show ?thesis using versioned_declared encode_stored registry1_last by auto
qed

theorem optional_field_witness:
  "declare_exchange registry0 (sample ''task-completed'' versioned_keys) = Inr registry1 \<and>
   (\<exists>keys'. decl.routingKey (last (entries registry1)) = Some keys' \<and>
      encode_word (Obj [(''taskId'', Str ''abc''), (''workerId'', Null)]) (keys' ! 2) = Inr ''_'' \<and>
      encode_word (Obj [(''taskId'', Str ''abc'')]) (keys' ! 2) = Inr ''_'')"
proof -
  have a: "2 < length versioned_keys" "\<not> truthy (required (versioned_keys ! 2))"
    "\<not> truthy (constant (versioned_keys ! 2))"
    by (simp_all add: versioned_keys_def)
  have "get_prop (Obj [(''taskId'', Str ''abc''), (''workerId'', Null)])
       (rkey.name (versioned_keys ! 2)) = Inr (Value Null)" "Null = Undefined \<or> Null = Null"
    by (simp_all add: versioned_keys_def)
  from optional_field [OF versioned_declared versioned_routingKey a this]
  have 1: "\<exists>keys'. decl.routingKey (last (entries registry1)) = Some keys' \<and>
      encode_word (Obj [(''taskId'', Str ''abc''), (''workerId'', Null)]) (keys' ! 2) = Inr ''_''"
    by auto
  have "get_prop (Obj [(''taskId'', Str ''abc'')])
       (rkey.name (versioned_keys ! 2)) = Inr (Value Undefined)"
    "Undefined = Undefined \<or> Undefined = Null"
    by (simp_all add: versioned_keys_def inherited_def object_prototype_def)
  from optional_field [OF versioned_declared versioned_routingKey a this]
  have 2: "\<exists>keys'. decl.routingKey (last (entries registry1)) = Some keys' \<and>
      encode_word (Obj [(''taskId'', Str ''abc'')]) (keys' ! 2) = Inr ''_''"
    by auto
  from 1 2 versioned_declared show ?thesis by auto
qed

text \<open>
  C6, as stated: an empty string is a value, and the word of the entry is the empty string,
  not \<open>_\<close>.
\<close>

theorem optional_field_counterexample:
  "declare_exchange registry0 (sample ''task-completed'' versioned_keys) = Inr registry1 \<and>
   decl.routingKey (last (entries registry1)) = Some stored_keys \<and>
   required (stored_keys ! 2) = Bool False \<and> constant (stored_keys ! 2) = Undefined \<and>
   encode_word (Obj [(''taskId'', Str ''abc''), (''workerId'', Str [])]) (stored_keys ! 2) =
     Inr [] \<and>
   encode_routingKey (last (entries registry1))
     (Obj [(''taskId'', Str ''abc''), (''workerId'', Str [])]) = Inr ''abc.v1.''"
  using versioned_declared
  by (simp add: registry1_def sample_def stored_keys_def encode_routingKey_def encode_word_def
      num_le_def)

text \<open>An object without a property \<open>constructor\<close> of its own inherits one, a function: for
  an entry of that name the lookup does not give \<open>undefined\<close>, and the encoding fails.\<close>

lemma inherited_property_word:
  "encode_word (Obj [(''taskId'', Str ''abc'')])
     \<lparr>rkey.name = ''constructor'', summary = Str ''Constructor'', multipleWords = Bool False,
      required = Bool False, constant = Undefined, maxSize = Num 22\<rparr> =
     Inl (AssertionError (NonStringRoutingKeyEntry ''constructor''))"
  by (simp add: encode_word_def inherited_def object_prototype_def)

theorem split_routingKey_witness:
  "length (split CHR ''.'' ''abc.v1._'') = length stored_keys \<and>
   encode_routingKey (sample ''task-completed'' stored_keys)
     (Obj [(''taskId'', Str ''abc''), (''version'', Str ''v2'')]) = Inr ''abc.v1._'' \<and>
   encode_word (Obj [(''taskId'', Str ''abc''), (''version'', Str ''v2'')]) (stored_keys ! 2) =
     Inr (split CHR ''.'' ''abc.v1._'' ! 2)"
proof -
  have "decl.routingKey (sample ''task-completed'' stored_keys) = Some stored_keys"
    "stored_keys \<noteq> []" "\<forall>key\<in>set stored_keys. \<not> truthy (multipleWords key)"
    "typeof (Obj [(''taskId'', Str ''abc''), (''version'', Str ''v2'')]) \<noteq> TString"
    by (simp_all add: sample_def stored_keys_def)
  from split_routingKey [OF this encode_stored]
  have "length (split CHR ''.'' ''abc.v1._'') = length stored_keys"
    and all: "\<forall>i<length stored_keys.
      encode_word (Obj [(''taskId'', Str ''abc''), (''version'', Str ''v2'')]) (stored_keys ! i) =
        Inr (split CHR ''.'' ''abc.v1._'' ! i)"
    by blast+
  moreover have "2 < length stored_keys" by (simp add: stored_keys_def)
  ultimately show ?thesis using encode_stored by blast
qed

text \<open>
  C7, as stated: a declaration with no entry in its routing key is accepted, its routing key
  is the empty string, and the empty string splits into one word.
\<close>

theorem split_routingKey_counterexample:
  "declare_exchange registry0 (sample ''heartbeat'' []) =
     Inr (registry0\<lparr>entries := [sample ''heartbeat'' []]\<rparr>) \<and>
   encode_routingKey (sample ''heartbeat'' []) (Obj []) = Inr [] \<and>
   length (split CHR ''.'' []) \<noteq> length ([] :: rkey list)"
  by (simp add: declare_exchange_def sample_def registry0_def check_strings_def
      prefixed_def no_options_def loop_init_def encode_routingKey_def)

section \<open>The exchange prefix of \<open>connect\<close> and of \<open>reference\<close>\<close>

lemma Publisher_prefix:
  "Publisher es prefix options = Inr that \<Longrightarrow>
     pub_exchangePrefix that = prefix \<and> pub_entries that = es \<and> pub_options that = options"
  by (auto simp: Publisher_def split: if_splits)

lemma connect_Inr:
  assumes "connect amqp this options = Inr that"
  shows "pub_exchangePrefix that = connect_exchangePrefix (call_options this options)"
    and "pub_entries that = entries this"
    and "validator (pub_options that) \<noteq> None"
    and "drain (pub_options that) = drain (call_options this options)"
  using assms
  by (auto simp: connect_def Let_def Publisher_def split: if_splits option.splits)

lemma reference_Inr:
  assumes "reference meta_check this options = Inr doc"
  shows "doc_exchangePrefix doc = reference_exchangePrefix (call_options this options)"
  using assms
  by (auto simp: reference_def Let_def split: if_splits sum.splits)

lemma call_options_credentials: "credentials (call_options this options) \<noteq> None"
  by (simp add: call_options_def defaults_def no_options_def split: option.splits)
    (metis orElse.elims option.distinct(1))

text \<open>
  C8, as amended. When the merged options carry no user name, or a user name and a
  password, the exchange prefix of \<open>connect\<close> is the exchange prefix of \<open>reference\<close>: the
  prefix of the options behind \<open>exchange/<username>/\<close> when there is a user name, the
  prefix of the options otherwise.
\<close>

theorem exchangePrefix_agreement:
  assumes "connect amqp this options = Inr that"
    and "reference meta_check this options = Inr doc"
    and "given (username (the_credentials (call_options this options))) \<longrightarrow>
         given (password (the_credentials (call_options this options)))"
  shows "pub_exchangePrefix that = doc_exchangePrefix doc \<and>
     doc_exchangePrefix doc =
       (if given (username (the_credentials (call_options this options)))
        then Some (''exchange/'' @
               join_elem (username (the_credentials (call_options this options))) @ ''/'' @
               join_elem (exchangePrefix (call_options this options)))
        else exchangePrefix (call_options this options))"
  using connect_Inr(1) [OF assms(1)] reference_Inr [OF assms(2)] assms(3)
    call_options_credentials [of this options]
  by (auto simp: connect_exchangePrefix_def reference_exchangePrefix_def)

text \<open>
  C8, as stated: with a connection string and a user name but no password, \<open>reference\<close>
  puts \<open>exchange/<username>/\<close> before the prefix and \<open>connect\<close> does not.
\<close>

theorem exchangePrefix_agreement_counterexample:
  "map_sum id pub_exchangePrefix (connect (\<lambda>c. None) registry0 options1) = Inr (Some ''v1/'') \<and>
   map_sum id doc_exchangePrefix (reference (\<lambda>d. Null) registry0 options1) =
     Inr (Some ''exchange/user/v1/'')"
  by (simp add: connect_def reference_def call_options_def defaults_def no_options_def
      registry0_def options1_def the_credentials_def Publisher_def connect_exchangePrefix_def
      reference_exchangePrefix_def connect_connectionString_def Let_def)

theorem exchangePrefix_agreement_witness:
  "map_sum id pub_exchangePrefix (connect (\<lambda>c. None) registry0 options2) =
     Inr (Some ''exchange/user/v1/'') \<and>
   map_sum id doc_exchangePrefix (reference (\<lambda>d. Null) registry0 options2) =
     Inr (Some ''exchange/user/v1/'')"
proof -
  obtain that where c: "connect (\<lambda>c. None) registry0 options2 = Inr that"
    by (simp add: connect_def call_options_def defaults_def no_options_def
      registry0_def options2_def the_credentials_def Publisher_def Let_def)
  obtain doc where r: "reference (\<lambda>d. Null) registry0 options2 = Inr doc"
    by (simp add: reference_def call_options_def defaults_def no_options_def
      registry0_def options2_def Let_def)
  have g: "given (username (the_credentials (call_options registry0 options2))) \<longrightarrow>
         given (password (the_credentials (call_options registry0 options2)))"
    by (simp add: call_options_def defaults_def no_options_def registry0_def options2_def
        the_credentials_def)
  from exchangePrefix_agreement [OF c r g] c r show ?thesis
    by (simp add: call_options_def defaults_def no_options_def registry0_def options2_def
        the_credentials_def)
qed

section \<open>Properties of the registry and of the publisher\<close>

lemma check_unique_None:
  "check_unique es d = None \<longleftrightarrow>
     (\<forall>e\<in>set es. decl.exchange e \<noteq> decl.exchange d \<and> decl.name e \<noteq> decl.name d)"
  by (induction es) auto

lemma declare_exchange_wf:
  assumes "wf_registry this" and "declare_exchange this d = Inr this'"
  shows "wf_registry this'"
proof -
  from declare_exchange_Inr [OF assms(2)] obtain ks ks' st where
    k: "decl.routingKey d = Some ks" "declare_keys loop_init ks = Inr (ks', st)"
      "this' = this\<lparr>entries := entries this @ [(prefixed (schemaPrefix (opts this)) d)\<lparr>routingKey := Some ks'\<rparr>]\<rparr>"
      "check_strings d = None"
      "check_unique (entries this) ((prefixed (schemaPrefix (opts this)) d)\<lparr>routingKey := Some ks'\<rparr>) = None"
      "messageBuilder d \<noteq> None" "routingKeyBuilder d \<noteq> None" "CCBuilder d \<noteq> None"
    by blast
  let ?d = "(prefixed (schemaPrefix (opts this)) d)\<lparr>routingKey := Some ks'\<rparr>"
  have "wf_entry ?d"
    using k(4,6,7,8) declare_keys_valid [OF k(2)]
    by (simp add: wf_entry_def valid_entry_def check_strings_None)
  moreover from k(5) have "decl.name ?d \<notin> set (map decl.name (entries this))"
    "decl.exchange ?d \<notin> set (map decl.exchange (entries this))"
    by (auto simp: check_unique_None)
  ultimately show ?thesis using assms(1) k(3)
    by (simp add: wf_registry_def)
qed

lemma configure_wf: "wf_registry this \<Longrightarrow> wf_registry (configure this options)"
  by (simp add: configure_def wf_registry_def)

lemma calls_on_wf:
  "wf_registry this \<Longrightarrow> calls_on this calls = Some this' \<Longrightarrow> wf_registry this'"
proof (induction this calls rule: calls_on.induct)
  case (1 this)
  then show ?case by simp
next
  case (2 this options calls)
  then show ?case by (simp add: configure_wf)
next
  case (3 this options calls)
  then show ?case
    by (cases "declare_exchange this options") (auto intro: declare_exchange_wf)
qed

lemma Exchanges_wf: "Exchanges options = Inr this \<Longrightarrow> wf_registry this"
  by (auto simp: Exchanges_def configure_def wf_registry_def split: if_splits)

lemma filter_distinct_map:
  "distinct (map f xs) \<Longrightarrow> x \<in> set xs \<Longrightarrow> filter (\<lambda>y. f y = f x) xs = [x]"
proof (induction xs)
  case Nil
  then show ?case by simp
next
  case (Cons a xs)
  then show ?case
    by (auto simp: filter_empty_conv image_iff)
qed

lemma method_of_entry:
  assumes "wf_registry this" and "pub_entries that = entries this"
    and "entry \<in> set (entries this)"
  shows "method_of that (to_string (decl.name entry)) = Some entry"
proof -
  from assms(1) have str: "\<And>v. v \<in> set (map decl.name (entries this)) \<Longrightarrow> \<exists>n. v = Str n"
    by (auto simp: wf_registry_def wf_entry_def list_all_iff typeof_string)
  have "inj_on (\<lambda>v. to_string v) (set (map decl.name (entries this)))"
  proof (rule inj_onI)
    fix x y
    assume "x \<in> set (map decl.name (entries this))" "y \<in> set (map decl.name (entries this))"
    then obtain n m where "x = Str n" "y = Str m" using str by blast
    moreover assume "to_string x = to_string y"
    ultimately show "x = y" by simp
  qed
  with assms(1) have "distinct (map (\<lambda>e. to_string (decl.name e)) (entries this))"
    using distinct_map [of "\<lambda>v. to_string v" "map decl.name (entries this)"]
    by (simp add: wf_registry_def comp_def)
  from filter_distinct_map [OF this assms(3)] assms(2) show ?thesis
    by (simp add: method_of_def)
qed

lemma method_of_absent:
  assumes "\<forall>entry\<in>set (pub_entries that). decl.name entry \<noteq> Str n"
    and "\<forall>entry\<in>set (pub_entries that). typeof (decl.name entry) = TString"
  shows "method_of that n = None"
proof -
  have "filter (\<lambda>entry. to_string (decl.name entry) = n) (pub_entries that) = []"
    using assms by (auto simp: filter_empty_conv typeof_string)
  then show ?thesis by (simp add: method_of_def)
qed

lemma prepare_invalid:
  assumes "the_validator that = Some check" and "messageBuilder entry = Some mb"
    and "routingKeyBuilder entry = Some rb" and "CCBuilder entry = Some cb"
    and "truthy (check (mb args) (schema entry))"
  shows "\<exists>e. prepare ev that entry args = Inl e"
    and "cb args = Arr ccs \<Longrightarrow> prepare ev that entry args =
      Inl (MessageValidationFailed (check (mb args) (schema entry)))"
  using assms
  by (auto simp: prepare_def Let_def split: jsval.splits)

lemma publish_entry_invalid:
  assumes "the_validator that = Some check" and "messageBuilder entry = Some mb"
    and "routingKeyBuilder entry = Some rb" and "CCBuilder entry = Some cb"
    and "truthy (check (mb args) (schema entry))"
  shows "\<exists>e. publish_entry ev that entry args w = (Inl e, w)"
    and "cb args = Arr ccs \<Longrightarrow> publish_entry ev that entry args w =
      (Inl (MessageValidationFailed (check (mb args) (schema entry))), w)"
  using prepare_invalid [OF assms, where ev = ev]
  by (auto simp: publish_entry_def)

text \<open>
  In a publisher made by \<open>connect\<close> of a registry that no entry of the name \<open>_options\<close> was
  declared in, a call of the method of an entry whose message fails the validation against
  the schema of the entry leaves the calls of \<open>channel.publish\<close> as they were and fails;
  when \<open>CCBuilder\<close> returned an array, as it has to, the failure is that of the validation
  and carries its errors.
\<close>

lemma invalid_message_not_published:
  assumes "Exchanges settings = Inr this0" and "calls_on this0 calls = Some this"
    and "connect amqp this options = Inr that" and "entry \<in> set (entries this)"
    and "\<forall>e\<in>set (entries this). decl.name e \<noteq> Str ''_options''"
  shows "\<exists>n mb cb check. decl.name entry = Str n \<and> messageBuilder entry = Some mb \<and>
     CCBuilder entry = Some cb \<and> validator (pub_options that) = Some check \<and>
     (\<forall>ev args w. truthy (check (mb args) (schema entry)) \<longrightarrow>
        (\<exists>e. publish ev that n args w = (Inl e, w)) \<and>
        (\<forall>ccs. cb args = Arr ccs \<longrightarrow>
           publish ev that n args w =
             (Inl (MessageValidationFailed (check (mb args) (schema entry))), w)))"
proof -
  from Exchanges_wf [OF assms(1)] assms(2) have wf: "wf_registry this"
    by (rule calls_on_wf)
  with assms(4) have "wf_entry entry" by (auto simp: wf_registry_def list_all_iff)
  then obtain n mb rb cb where e: "decl.name entry = Str n" "messageBuilder entry = Some mb"
    "routingKeyBuilder entry = Some rb" "CCBuilder entry = Some cb"
    by (auto simp: wf_entry_def typeof_string)
  from connect_Inr(3) [OF assms(3)] obtain check where
    c: "validator (pub_options that) = Some check" by auto
  from wf have "\<forall>e\<in>set (entries this). typeof (decl.name e) = TString"
    by (auto simp: wf_registry_def wf_entry_def list_all_iff)
  with assms(5) connect_Inr(2) [OF assms(3)] have "method_of that ''_options'' = None"
    by (intro method_of_absent) simp_all
  with c have v: "the_validator that = Some check" by (simp add: the_validator_def)
  from method_of_entry [OF wf connect_Inr(2) [OF assms(3)] assms(4)] e(1)
  have m: "method_of that n = Some entry" by simp
  have "(\<exists>e. publish ev that n args w = (Inl e, w)) \<and>
        (\<forall>ccs. cb args = Arr ccs \<longrightarrow>
           publish ev that n args w =
             (Inl (MessageValidationFailed (check (mb args) (schema entry))), w))"
    if "truthy (check (mb args) (schema entry))" for ev args w
    using publish_entry_invalid [OF v e(2,3,4) that] m by (simp add: publish_def)
  with e c show ?thesis by blast
qed

lemma registry0_constructed:
  "Exchanges (no_options\<lparr>options.title := Some ''Title'',
      options.description := Some ''Description''\<rparr>) = Inr registry0"
  by (simp add: Exchanges_def configure_def defaults_def no_options_def registry0_def)

lemma versioned_calls:
  "calls_on registry0 [Declare (sample ''task-completed'' versioned_keys)] = Some registry1"
  using versioned_declared by simp

lemma publisher3_connected: "connect (\<lambda>c. None) registry1 options3 = Inr publisher3"
  by (simp add: connect_def call_options_def defaults_def no_options_def registry1_def
      registry0_def options3_def publisher3_def the_credentials_def Publisher_def
      connect_exchangePrefix_def connect_connectionString_def Let_def)

lemma method_of_publisher3:
  "method_of publisher3 ''task-completed'' = Some (sample ''task-completed'' stored_keys)"
  "method_of publisher3 ''_options'' = None" "method_of publisher3 ''_channel'' = None"
  "method_of publisher3 ''_reporter'' = None"
  by (simp_all add: method_of_def publisher3_def sample_def)

lemma publish_invalid:
  "publish env0 publisher3 ''task-completed'' [Null, Obj [(''taskId'', Str ''abc'')]] world0 =
     (Inl (MessageValidationFailed (Arr [Str ''no message''])), world0)"
  by (simp add: publish_def method_of_def publish_entry_def prepare_def
      the_validator_def publisher3_def sample_def
      options3_def defaults_def no_options_def registry0_def Let_def)

lemma publish_valid:
  "publish_entry env0 publisher3 (sample ''task-completed'' stored_keys)
     [Obj [], Obj [(''taskId'', Str ''abc'')], Str ''route.other''] world0 =
     (Inr (Accepted (Bool True)), world1)"
  by (simp add: publish_entry_def prepare_def the_validator_def to_payload_def point_of_def
      method_of_def publisher3_def sample_def
      options3_def defaults_def no_options_def registry0_def Let_def stored_keys_def
      encode_routingKey_def encode_word_def num_le_def env0_def world0_def world1_def
      inherited_def object_prototype_def)

lemma invalid_message_not_published_example:
  "connect (\<lambda>c. None) registry1 options3 = Inr publisher3 \<and>
   publish env0 publisher3 ''task-completed'' [Null, Obj [(''taskId'', Str ''abc'')]] world0 =
     (Inl (MessageValidationFailed (Arr [Str ''no message''])), world0)"
proof -
  have "sample ''task-completed'' stored_keys \<in> set (entries registry1)"
    "\<forall>e\<in>set (entries registry1). decl.name e \<noteq> Str ''_options''"
    by (simp_all add: registry1_def sample_def)
  from invalid_message_not_published [OF registry0_constructed versioned_calls
      publisher3_connected this]
  have "\<exists>e. publish env0 publisher3 ''task-completed''
      [Null, Obj [(''taskId'', Str ''abc'')]] world0 = (Inl e, world0)"
    by (auto simp: sample_def publisher3_def options3_def defaults_def no_options_def
        registry0_def)
  with publish_invalid publisher3_connected show ?thesis by simp
qed

text \<open>
  C1, at an entry of the name \<open>_options\<close>. The declaration is accepted and \<open>connect\<close> makes
  the publisher; its method \<open>_options\<close> is in the place of the options of the publisher, so
  that a call whose message fails the validation (the validator answers with errors) throws
  the \<open>TypeError\<close> of reading \<open>check\<close> of \<open>undefined\<close>, not the error of the validation. Nothing
  is published.
\<close>

theorem invalid_message_TypeError:
  "declare_exchange registry0 (sample ''_options'' versioned_keys) = Inr registry2 \<and>
   connect (\<lambda>c. None) registry2 options3 = Inr publisher4 \<and>
   map_option (\<lambda>check. check Null (Str ''message.json#'')) (validator (pub_options publisher4)) =
     Some (Arr [Str ''no message'']) \<and>
   publish env0 publisher4 ''_options'' [Null, Obj [(''taskId'', Str ''abc'')]] world0 =
     (Inl TypeError, world0)"
proof -
  have "declare_exchange registry0 (sample ''_options'' versioned_keys) = Inr registry2"
    by (simp add: versioned_keys_def stored_keys_def registry2_def declare_exchange_def
        sample_def registry0_def check_strings_def prefixed_def no_options_def declare_key_def
        loop_init_def field_def)
  moreover have "connect (\<lambda>c. None) registry2 options3 = Inr publisher4"
    by (simp add: connect_def call_options_def defaults_def no_options_def registry2_def
        registry0_def options3_def publisher4_def publisher3_def the_credentials_def
        Publisher_def connect_exchangePrefix_def connect_connectionString_def Let_def)
  moreover have "map_option (\<lambda>check. check Null (Str ''message.json#''))
      (validator (pub_options publisher4)) = Some (Arr [Str ''no message''])"
    by (simp add: publisher4_def publisher3_def options3_def defaults_def no_options_def)
  moreover have "publish env0 publisher4 ''_options''
      [Null, Obj [(''taskId'', Str ''abc'')]] world0 = (Inl TypeError, world0)"
    by (simp add: publish_def method_of_def publish_entry_def prepare_def the_validator_def
        publisher4_def publisher3_def sample_def Let_def)
  ultimately show ?thesis by simp
qed

text \<open>
  C9, as amended. With a drain of statistics and no entry of the name \<open>_reporter\<close>, a call
  of a method of the publisher reports one point when the broker answers the call of
  \<open>channel.publish\<close>, and none when the call throws before (the validation, the routing key),
  when the promise fails before the broker is reached, or when the broker never answers.
  The point has one more routing key than the CC list is long, the length of the serialized
  message as the size of the payload, the exchange the message went to, and as \<open>error\<close> the
  string \<open>true\<close> when the broker answered with an error, the string \<open>false\<close> otherwise.
\<close>

theorem statistics_point:
  assumes "drain (pub_options that) \<noteq> None" and "method_of that ''_reporter'' = None"
    and "publish_entry ev that entry args w = (r, w')"
  shows "(\<forall>e. r = Inl e \<or> r = Inr (Failed e) \<longrightarrow>
        reported w' = reported w \<and> published w' = published w) \<and>
     (r = Inr Pending \<longrightarrow> reported w' = reported w) \<and>
     (\<forall>e. r \<noteq> Inr (Abandoned e)) \<and>
     (\<forall>v. r = Inr (Accepted v) \<or> r = Inr (Rejected v) \<longrightarrow>
        (\<exists>call pt mb cb ccs. messageBuilder entry = Some mb \<and> CCBuilder entry = Some cb \<and>
           cb args = Arr ccs \<and>
           published w' = published w @ [call] \<and> reported w' = reported w @ [pt] \<and>
           payload call = stringify ev (mb args) \<and> CC call = ccs \<and>
           to_exchange call = concat_elem (pub_exchangePrefix that) @
                              to_string (decl.exchange entry) \<and>
           routingKeys pt = 1 + int (length ccs) \<and>
           payloadSize pt = length (payload call) \<and>
           point.exchange pt = to_exchange call \<and>
           point.error pt = Str (if r = Inr (Rejected v) then ''true'' else ''false'')))"
proof (cases "prepare ev that entry args")
  case (Inl e)
  with assms(3) show ?thesis by (auto simp: publish_entry_def)
next
  case (Inr call)
  then obtain mb cb ccs where
    p: "messageBuilder entry = Some mb" "CCBuilder entry = Some cb" "cb args = Arr ccs"
      "payload call = stringify ev (mb args)" "CC call = ccs"
      "to_exchange call = concat_elem (pub_exchangePrefix that) @
         to_string (decl.exchange entry)"
    by (auto simp: prepare_def to_payload_def Let_def
        split: option.splits jsval.splits sum.splits if_splits)
  show ?thesis
  proof (cases "method_of that ''_channel'' = None")
    case False
    with Inr assms(3) show ?thesis by (auto simp: publish_entry_def)
  next
    case True
    show ?thesis
    proof (cases "broker ev call")
      case NoAnswer
      with Inr True assms(3) show ?thesis by (auto simp: publish_entry_def Let_def)
    next
      case (Callback err val)
      with Inr True assms p show ?thesis
        by (auto simp: publish_entry_def point_of_def Let_def split: if_splits)
    qed
  qed
qed

theorem statistics_point_witness:
  "drain (pub_options publisher3) \<noteq> None \<and> method_of publisher3 ''_reporter'' = None \<and>
   publish_entry env0 publisher3 (sample ''task-completed'' stored_keys)
     [Obj [], Obj [(''taskId'', Str ''abc'')], Str ''route.other''] world0 =
     (Inr (Accepted (Bool True)), world1) \<and>
   map routingKeys (reported world1) = [2] \<and> map payloadSize (reported world1) = [2] \<and>
   map point.exchange (reported world1) = [''v1/task-completed''] \<and>
   map point.error (reported world1) = [Str ''false'']"
proof -
  have d: "drain (pub_options publisher3) \<noteq> None"
    by (simp add: publisher3_def options3_def defaults_def no_options_def)
  from statistics_point [OF d method_of_publisher3(4) publish_valid] d publish_valid
    method_of_publisher3(4)
  show ?thesis
    by (simp add: world1_def)
qed

text \<open>
  C9, as stated: a call whose message fails the validation reports no point, and the
  \<open>error\<close> of the point of a call that succeeds is a string, not a boolean.
\<close>

theorem statistics_point_counterexample:
  "connect (\<lambda>c. None) registry1 options3 = Inr publisher3 \<and>
   drain (pub_options publisher3) \<noteq> None \<and>
   publish env0 publisher3 ''task-completed'' [Null, Obj [(''taskId'', Str ''abc'')]] world0 =
     (Inl (MessageValidationFailed (Arr [Str ''no message''])), world0) \<and>
   reported world0 = [] \<and>
   publish env0 publisher3 ''task-completed''
     [Obj [], Obj [(''taskId'', Str ''abc'')], Str ''route.other''] world0 =
     (Inr (Accepted (Bool True)), world1) \<and>
   map typeof (map point.error (reported world1)) = [TString]"
  using publish_valid publish_invalid publisher3_connected method_of_publisher3(1)
  by (simp add: publish_def world0_def world1_def publisher3_def options3_def defaults_def
      no_options_def)

text \<open>
  Entries of the names \<open>_reporter\<close> and \<open>_channel\<close>. With a method in the place of the
  reporter, the answer of the broker has this method called with the point, and no point
  reaches the drain; with a method in the place of the channel, the promise is rejected
  and nothing is published. A message that is \<open>undefined\<close> has no serialization: the call
  throws before the broker is reached.
\<close>

lemma reporter_entry_unreported:
  "drain (pub_options (publisher3\<lparr>pub_entries := [sample ''_reporter'' stored_keys]\<rparr>)) \<noteq> None \<and>
   publish env0 (publisher3\<lparr>pub_entries := [sample ''_reporter'' stored_keys]\<rparr>)
     ''_reporter'' [Obj [], Obj [(''taskId'', Str ''abc'')]] world0 =
     (Inr (Abandoned TypeError),
      \<lparr>published = [\<lparr>to_exchange = ''v1/_reporter'', with_routingKey = ''abc.v1._'',
         payload = ''{}'', CC = []\<rparr>], reported = []\<rparr>)"
  by (simp add: publish_def method_of_def publish_entry_def prepare_def the_validator_def
      to_payload_def point_of_def publisher3_def sample_def
      options3_def defaults_def no_options_def registry0_def Let_def stored_keys_def
      encode_routingKey_def encode_word_def num_le_def env0_def world0_def
      inherited_def object_prototype_def)

lemma channel_entry_unpublished:
  "publish env0 (publisher3\<lparr>pub_entries := [sample ''_channel'' stored_keys]\<rparr>)
     ''_channel'' [Obj [], Obj [(''taskId'', Str ''abc'')]] world0 =
     (Inr (Failed TypeError), world0)"
  by (simp add: publish_def method_of_def publish_entry_def prepare_def the_validator_def
      to_payload_def point_of_def publisher3_def sample_def
      options3_def defaults_def no_options_def registry0_def Let_def stored_keys_def
      encode_routingKey_def encode_word_def num_le_def env0_def world0_def
      inherited_def object_prototype_def)

lemma undefined_message_unpublished:
  "publish env0 publisher3 ''task-completed'' [Undefined, Obj [(''taskId'', Str ''abc'')]] world0 =
     (Inl TypeError, world0)"
  by (simp add: publish_def method_of_def publish_entry_def prepare_def
      the_validator_def to_payload_def publisher3_def sample_def
      options3_def defaults_def no_options_def registry0_def Let_def stored_keys_def
      encode_routingKey_def encode_word_def num_le_def env0_def world0_def
      inherited_def object_prototype_def)

section \<open>The publisher keeps its own copy of the entries\<close>

lemma confined_put:
  "confined S h0 h \<Longrightarrow> a \<notin> S \<Longrightarrow> refs ob \<inter> S = {} \<Longrightarrow> confined S h0 (put a ob h)"
  by (auto simp: confined_def put_def)

lemma confined_alloc:
  "confined S h0 h \<Longrightarrow> refs ob \<inter> S = {} \<Longrightarrow> confined S h0 (snd (alloc ob h))"
  by (fastforce simp: confined_def alloc_def)

lemma confined_refs:
  "confined S h0 h \<Longrightarrow> a \<notin> S \<Longrightarrow> cells h a = Some ob \<Longrightarrow> refs ob \<inter> S = {}"
  by (auto simp: confined_def)

lemma confined_declare_keys_h:
  "confined S h0 h \<Longrightarrow> set as \<inter> S = {} \<Longrightarrow> confined S h0 (snd (declare_keys_h h st as))"
proof (induction as arbitrary: h st)
  case Nil
  then show ?case by simp
next
  case (Cons a as)
  show ?case
  proof (cases "cells h a")
    case None
    with Cons.prems show ?thesis by simp
  next
    case (Some ob)
    show ?thesis
    proof (cases ob)
      case (KeyObj key)
      obtain key' r where r: "declare_key st key = (key', r)" by (cases "declare_key st key")
      from Cons.prems have c: "confined S h0 (put a (KeyObj key') h)"
        by (auto intro: confined_put)
      show ?thesis
      proof (cases r)
        case (Inl e)
        with Some KeyObj r c show ?thesis by simp
      next
        case (Inr st')
        from Cons.IH [OF c, of st'] Cons.prems(2) Some KeyObj r Inr show ?thesis by simp
      qed
    next
      case (ArrayObj x)
      with Some Cons.prems show ?thesis by simp
    next
      case (DeclObj d r)
      with Some Cons.prems show ?thesis by simp
    qed
  qed
qed

lemma confined_declare_h:
  assumes "confined S h0 h" and "a \<notin> S" and "entries_ref this \<notin> S"
  shows "confined S h0 (snd (declare_h h this a))"
proof (cases "cells h a")
  case None
  with assms show ?thesis by (simp add: declare_h_def)
next
  case (Some ob)
  show ?thesis
  proof (cases ob)
    case (KeyObj key)
    with Some assms show ?thesis by (simp add: declare_h_def)
  next
    case (ArrayObj x)
    with Some assms show ?thesis by (simp add: declare_h_def)
  next
    case (DeclObj d r)
    let ?d1 = "prefixed (schemaPrefix (options_of this)) d"
    let ?h1 = "put a (DeclObj ?d1 r) h"
    from confined_refs [OF assms(1,2)] Some DeclObj have r: "set_option r \<inter> S = {}" by simp
    with assms have c1: "confined S h0 ?h1" by (auto intro: confined_put)
    show ?thesis
    proof (cases "check_strings d")
      case (Some e)
      with \<open>cells h a = Some ob\<close> DeclObj assms show ?thesis by (simp add: declare_h_def)
    next
      case None
      note strings = this
      show ?thesis
      proof (cases r)
        case None
        with \<open>cells h a = Some ob\<close> DeclObj strings c1 show ?thesis
          by (simp add: declare_h_def Let_def)
      next
        case (Some ra)
        with r have ra: "ra \<notin> S" by simp
        show ?thesis
        proof (cases "\<exists>kas. cells ?h1 ra = Some (ArrayObj kas)")
          case False
          with \<open>cells h a = Some ob\<close> DeclObj strings c1 Some show ?thesis
            by (auto simp: declare_h_def Let_def split: option.splits obj.splits)
        next
          case True
          then obtain kas where kas: "cells ?h1 ra = Some (ArrayObj kas)" by blast
          from confined_refs [OF c1 ra kas] have "set kas \<inter> S = {}" by simp
          from confined_declare_keys_h [OF c1 this, of loop_init]
          have c2: "confined S h0 (snd (declare_keys_h ?h1 loop_init kas))" .
          obtain res h2 where l: "declare_keys_h ?h1 loop_init kas = (res, h2)"
            by (cases "declare_keys_h ?h1 loop_init kas")
          with c2 have c2': "confined S h0 h2" by simp
          have push: "confined S h0 (put (entries_ref this) (ArrayObj (es @ [a])) h2)"
            if "cells h2 (entries_ref this) = Some (ArrayObj es)" for es
          proof -
            from confined_refs [OF c2' assms(3) that] assms(2)
            have "refs (ArrayObj (es @ [a])) \<inter> S = {}" by auto
            then show ?thesis by (rule confined_put [OF c2' assms(3)])
          qed
          from \<open>cells h a = Some ob\<close> DeclObj strings Some kas l c2' push show ?thesis
            by (auto simp: declare_h_def Let_def split: option.splits obj.splits sum.splits)
        qed
      qed
    qed
  qed
qed

lemma confined_hstep:
  assumes "confined S h0 h" and "outside S c" and "entries_ref this \<notin> S"
  shows "confined S h0 (fst (hstep (h, this) c)) \<and>
         entries_ref (snd (hstep (h, this) c)) = entries_ref this"
  using assms
  by (cases c) (auto intro: confined_declare_h confined_alloc confined_put)

lemma confined_foldl:
  "confined S h0 h \<Longrightarrow> \<forall>c\<in>set calls. outside S c \<Longrightarrow> entries_ref this \<notin> S \<Longrightarrow>
     confined S h0 (fst (foldl hstep (h, this) calls))"
proof (induction calls arbitrary: h this)
  case Nil
  then show ?case by simp
next
  case (Cons c calls)
  obtain h' this' where s: "hstep (h, this) c = (h', this')" by (cases "hstep (h, this) c")
  from confined_hstep [OF Cons.prems(1) _ Cons.prems(3), of c] Cons.prems(2) s
  have "confined S h0 h'" "entries_ref this' \<notin> S" using Cons.prems(3) by auto
  from Cons.IH [OF this(1) _ this(2)] Cons.prems(2) s show ?case by simp
qed

lemma wf_defined: "wf_heap h \<Longrightarrow> cells h a = Some ob \<Longrightarrow> a < lim h"
  by (simp add: wf_heap_def)

lemma wf_refs: "wf_heap h \<Longrightarrow> cells h a = Some ob \<Longrightarrow> refs ob \<subseteq> {..< lim h}"
  by (simp add: wf_heap_def)

lemma wf_fresh: "wf_heap h \<Longrightarrow> lim h \<le> x \<Longrightarrow> cells h x = None"
proof (cases "cells h x")
  case (Some ob)
  assume "wf_heap h" "lim h \<le> x"
  with wf_defined [OF _ Some] show ?thesis by simp
qed simp

lemma alloc_eq: "alloc ob h = (a, h1) \<Longrightarrow> a = lim h \<and> lim h1 = Suc (lim h) \<and>
    cells h1 = (cells h)(lim h \<mapsto> ob)"
  by (auto simp: alloc_def)

lemma alloc_grows:
  assumes "wf_heap h" and "refs ob \<subseteq> {b ..< lim h}" and "alloc ob h = (a, h1)"
  shows "grows b h h1"
proof -
  from alloc_eq [OF assms(3)] have e: "lim h1 = Suc (lim h)" "cells h1 = (cells h)(lim h \<mapsto> ob)"
    by simp_all
  have "refs o' \<subseteq> {b ..< lim h1}" if "lim h \<le> x" "cells h1 x = Some o'" for x o'
  proof (cases "x = lim h")
    case True
    with that e have "o' = ob" by simp
    with assms(2) e show ?thesis by auto
  next
    case False
    with that e wf_fresh [OF assms(1) that(1)] show ?thesis by simp
  qed
  then show ?thesis using e by (simp add: grows_def)
qed

lemma alloc_wf:
  assumes "wf_heap h" and "refs ob \<subseteq> {b ..< lim h}" and "alloc ob h = (a, h1)"
  shows "wf_heap h1"
proof -
  from alloc_eq [OF assms(3)] have e: "lim h1 = Suc (lim h)" "cells h1 = (cells h)(lim h \<mapsto> ob)"
    by simp_all
  have "x < lim h1 \<and> refs o' \<subseteq> {..< lim h1}" if "cells h1 x = Some o'" for x o'
  proof (cases "x = lim h")
    case True
    with that e have "o' = ob" by simp
    with assms(2) e True show ?thesis by auto
  next
    case False
    with that e have "cells h x = Some o'" by simp
    with assms(1) have "x < lim h" "refs o' \<subseteq> {..< lim h}"
      by (auto dest: wf_defined wf_refs)
    with e show ?thesis by auto
  qed
  then show ?thesis by (simp add: wf_heap_def)
qed

lemma those_map_cong:
  "(\<And>x. x \<in> set xs \<Longrightarrow> f x = g x) \<Longrightarrow> those (map f xs) = those (map g xs)"
  by (induction xs) (auto split: option.splits)

lemma load_entries_local:
  assumes same: "\<forall>a\<in>S. cells h' a = cells h a"
    and closed: "\<forall>a\<in>S. \<forall>ob. cells h a = Some ob \<longrightarrow> refs ob \<subseteq> S"
    and "ea \<in> S"
  shows "load_entries h' ea = load_entries h ea"
proof -
  have key: "load_key h' a = load_key h a" if "a \<in> S" for a
    using that same by (simp add: load_key_def)
  have dec: "load_decl h' a = load_decl h a" if "a \<in> S" for a
  proof (cases "cells h a")
    case None
    with that same show ?thesis by (simp add: load_decl_def)
  next
    case (Some ob)
    show ?thesis
    proof (cases ob)
      case (DeclObj d r)
      show ?thesis
      proof (cases r)
        case None
        with Some DeclObj that same show ?thesis by (simp add: load_decl_def)
      next
        case (Some ra)
        from closed that \<open>cells h a = Some ob\<close> have "refs ob \<subseteq> S" by blast
        with DeclObj Some have ra: "ra \<in> S" by simp
        have "those (map (load_key h') kas) = those (map (load_key h) kas)"
          if "cells h ra = Some (ArrayObj kas)" for kas
        proof (rule those_map_cong)
          fix x assume x: "x \<in> set kas"
          from closed ra that have "refs (ArrayObj kas) \<subseteq> S" by blast
          with x have "x \<in> S" by auto
          then show "load_key h' x = load_key h x" by (rule key)
        qed
        with Some \<open>cells h a = Some ob\<close> DeclObj \<open>a \<in> S\<close> ra same show ?thesis
          by (auto simp: load_decl_def split: option.splits obj.splits)
      qed
    qed (use Some that same in \<open>simp_all add: load_decl_def\<close>)
  qed
  have "those (map (load_decl h') es) = those (map (load_decl h) es)"
    if "cells h ea = Some (ArrayObj es)" for es
  proof (rule those_map_cong)
    fix x assume x: "x \<in> set es"
    from closed assms(3) that have "refs (ArrayObj es) \<subseteq> S" by blast
    with x have "x \<in> S" by auto
    then show "load_decl h' x = load_decl h x" by (rule dec)
  qed
  with assms(3) same show ?thesis
    by (auto simp: load_entries_def split: option.splits obj.splits)
qed

lemma grows_refl: "wf_heap h \<Longrightarrow> grows b h h"
  by (fastforce simp: grows_def wf_heap_def)

lemma grows_trans:
  assumes "grows b h h1" and "grows b h1 h2"
  shows "grows b h h2"
  unfolding grows_def
proof (intro conjI allI impI)
  from assms show "lim h \<le> lim h2" by (simp add: grows_def)
next
  fix a assume "a < lim h"
  with assms show "cells h2 a = cells h a" by (simp add: grows_def)
next
  fix a ob assume a: "lim h \<le> a" "cells h2 a = Some ob"
  show "refs ob \<subseteq> {b ..< lim h2}"
  proof (cases "a < lim h1")
    case True
    with assms a have "cells h1 a = Some ob" by (simp add: grows_def)
    with assms(1) a(1) have "refs ob \<subseteq> {b ..< lim h1}" by (simp add: grows_def)
    with assms(2) show ?thesis by (auto simp: grows_def)
  next
    case False
    then have "lim h1 \<le> a" by simp
    with assms(2) a(2) show ?thesis unfolding grows_def by blast
  qed
qed

lemma grows_cells: "grows b h h1 \<Longrightarrow> a < lim h \<Longrightarrow> cells h1 a = cells h a"
  by (simp add: grows_def)

lemma grows_load_key:
  "wf_heap h \<Longrightarrow> grows b h h1 \<Longrightarrow> load_key h a = Some key \<Longrightarrow> load_key h1 a = Some key"
  by (auto simp: load_key_def grows_def wf_heap_def split: option.splits obj.splits)

lemma grows_load_keys:
  assumes "wf_heap h" and "grows b h h1" and "those (map (load_key h) kas) = Some keys"
  shows "those (map (load_key h1) kas) = Some keys"
  using assms(3)
proof (induction kas arbitrary: keys)
  case Nil
  then show ?case by simp
next
  case (Cons a kas)
  then show ?case
    using grows_load_key [OF assms(1,2), of a]
    by (auto split: option.splits)
qed

lemma grows_load_decl:
  assumes "wf_heap h" and "grows b h h1" and "load_decl h a = Some d"
  shows "load_decl h1 a = Some d"
proof -
  from assms(3) obtain d0 r where c: "cells h a = Some (DeclObj d0 r)"
    by (auto simp: load_decl_def split: option.splits obj.splits)
  from grows_cells [OF assms(2) wf_defined [OF assms(1) c]] c
  have c1: "cells h1 a = Some (DeclObj d0 r)" by simp
  show ?thesis
  proof (cases r)
    case None
    with c c1 assms(3) show ?thesis by (simp add: load_decl_def)
  next
    case (Some ra)
    with c assms(3) obtain kas keys where k: "cells h ra = Some (ArrayObj kas)"
      "those (map (load_key h) kas) = Some keys" "d = d0\<lparr>routingKey := Some keys\<rparr>"
      by (auto simp: load_decl_def split: option.splits obj.splits)
    from grows_cells [OF assms(2) wf_defined [OF assms(1) k(1)]] k(1)
    have "cells h1 ra = Some (ArrayObj kas)" by simp
    with c1 Some k grows_load_keys [OF assms(1,2) k(2)] show ?thesis
      by (simp add: load_decl_def)
  qed
qed

lemma clone_each_spec:
  assumes step: "\<And>h a a' h1 v. wf_heap h \<Longrightarrow> b \<le> lim h \<Longrightarrow> ld h a = Some v \<Longrightarrow>
      f h a = (a', h1) \<Longrightarrow>
      grows b h h1 \<and> wf_heap h1 \<and> b \<le> a' \<and> a' < lim h1 \<and> ld h1 a' = Some v"
    and mono: "\<And>h h1 a v. wf_heap h \<Longrightarrow> grows b h h1 \<Longrightarrow> ld h a = Some v \<Longrightarrow>
      ld h1 a = Some v"
  shows "wf_heap h \<Longrightarrow> b \<le> lim h \<Longrightarrow> those (map (ld h) as) = Some vs \<Longrightarrow>
     clone_each f h as = (as', h1) \<Longrightarrow>
     grows b h h1 \<and> wf_heap h1 \<and> set as' \<subseteq> {b ..< lim h1} \<and>
     those (map (ld h1) as') = Some vs"
proof (induction as arbitrary: h vs as' h1)
  case Nil
  then show ?case by (auto intro: grows_refl)
next
  case (Cons a as)
  from Cons.prems(3) obtain v vs' where v: "ld h a = Some v" "those (map (ld h) as) = Some vs'"
    "vs = v # vs'" by (auto split: option.splits)
  from Cons.prems(4) obtain a' ha as1 where c: "f h a = (a', ha)"
    "clone_each f ha as = (as1, h1)" "as' = a' # as1"
    by (auto split: prod.splits)
  from step [OF Cons.prems(1,2) v(1) c(1)]
  have s: "grows b h ha" "wf_heap ha" "b \<le> a'" "a' < lim ha" "ld ha a' = Some v" by auto
  have "those (map (ld ha) as) = Some vs'"
    using v(2)
  proof (induction as arbitrary: vs')
    case Nil
    then show ?case by simp
  next
    case (Cons x xs)
    then show ?case
      using mono [OF \<open>wf_heap h\<close> s(1), of x]
      by (auto split: option.splits)
  qed
  moreover from s(1) Cons.prems(2) have "b \<le> lim ha" by (simp add: grows_def)
  ultimately have r: "grows b ha h1" "wf_heap h1" "set as1 \<subseteq> {b ..< lim h1}"
    "those (map (ld h1) as1) = Some vs'"
    using Cons.IH [OF s(2) _ _ c(2)] by auto
  from r(1) s(4) have "a' < lim h1" by (simp add: grows_def)
  moreover from mono [OF s(2) r(1) s(5)] have "ld h1 a' = Some v" .
  ultimately show ?case
    using r s(3) v(3) c(3) grows_trans [OF s(1) r(1)] by simp
qed

lemma load_key_cell: "load_key h a = Some key \<longleftrightarrow> cells h a = Some (KeyObj key)"
  by (auto simp: load_key_def split: option.splits obj.splits)

lemma clone_key_spec:
  assumes "wf_heap h" and "b \<le> lim h" and "load_key h a = Some key"
    and "clone_key h a = (a', h1)"
  shows "grows b h h1 \<and> wf_heap h1 \<and> b \<le> a' \<and> a' < lim h1 \<and> load_key h1 a' = Some key"
proof -
  from assms(3,4) have al: "alloc (KeyObj key) h = (a', h1)"
    by (simp add: clone_key_def load_key_cell)
  have r: "refs (KeyObj key) \<subseteq> {b ..< lim h}" by simp
  from alloc_eq [OF al] alloc_grows [OF assms(1) r al] alloc_wf [OF assms(1) r al] assms(2)
  show ?thesis by (simp add: load_key_cell)
qed

lemma clone_keys_spec:
  assumes "wf_heap h" and "b \<le> lim h" and "cells h ra = Some (ArrayObj kas)"
    and "those (map (load_key h) kas) = Some keys" and "clone_keys h ra = (ra', h1)"
  shows "grows b h h1 \<and> wf_heap h1 \<and> b \<le> ra' \<and> ra' < lim h1 \<and>
     (\<exists>kas'. cells h1 ra' = Some (ArrayObj kas') \<and> those (map (load_key h1) kas') = Some keys)"
proof -
  from assms(3,5) obtain kas' h2 where c: "clone_each clone_key h kas = (kas', h2)"
    and al: "alloc (ArrayObj kas') h2 = (ra', h1)"
    by (auto simp: clone_keys_def split: prod.splits)
  have e: "grows b h h2 \<and> wf_heap h2 \<and> set kas' \<subseteq> {b ..< lim h2} \<and>
     those (map (load_key h2) kas') = Some keys"
  proof (rule clone_each_spec [where ld = load_key and f = clone_key, OF _ _ assms(1,2,4) c])
    fix h a a' h1 v
    assume "wf_heap h" "b \<le> lim h" "load_key h a = Some v" "clone_key h a = (a', h1)"
    then show "grows b h h1 \<and> wf_heap h1 \<and> b \<le> a' \<and> a' < lim h1 \<and> load_key h1 a' = Some v"
      by (rule clone_key_spec)
  next
    fix h h1 a v
    assume "wf_heap h" "grows b h h1" "load_key h a = Some v"
    then show "load_key h1 a = Some v" by (rule grows_load_key)
  qed
  then have r: "refs (ArrayObj kas') \<subseteq> {b ..< lim h2}" by simp
  from e have wf2: "wf_heap h2" by simp
  note g = alloc_grows [OF wf2 r al] and w = alloc_wf [OF wf2 r al] and q = alloc_eq [OF al]
  from e assms(2) have "b \<le> lim h2" by (simp add: grows_def)
  with q have "b \<le> ra'" "ra' < lim h1" "cells h1 ra' = Some (ArrayObj kas')" by simp_all
  moreover from e have "those (map (load_key h1) kas') = Some keys"
    using grows_load_keys [OF wf2 g] by simp
  moreover from e g have "grows b h h1" by (auto intro: grows_trans)
  ultimately show ?thesis using w by blast
qed

lemma clone_decl_spec:
  assumes "wf_heap h" and "b \<le> lim h" and "load_decl h a = Some d"
    and "clone_decl h a = (a', h1)"
  shows "grows b h h1 \<and> wf_heap h1 \<and> b \<le> a' \<and> a' < lim h1 \<and> load_decl h1 a' = Some d"
proof -
  from assms(3) obtain d0 r where c: "cells h a = Some (DeclObj d0 r)"
    by (auto simp: load_decl_def split: option.splits obj.splits)
  show ?thesis
  proof (cases r)
    case None
    with c assms(3,4) have al: "alloc (DeclObj d0 None) h = (a', h1)"
      and d: "d = d0\<lparr>routingKey := None\<rparr>"
      by (simp_all add: clone_decl_def load_decl_def)
    have r: "refs (DeclObj d0 None) \<subseteq> {b ..< lim h}" by simp
    from alloc_eq [OF al] alloc_grows [OF assms(1) r al] alloc_wf [OF assms(1) r al] assms(2) d
    show ?thesis by (simp add: load_decl_def)
  next
    case (Some ra)
    with c assms(3) obtain kas keys where k: "cells h ra = Some (ArrayObj kas)"
      "those (map (load_key h) kas) = Some keys" "d = d0\<lparr>routingKey := Some keys\<rparr>"
      by (auto simp: load_decl_def split: option.splits obj.splits)
    from c Some assms(4) obtain ra' h2 where ck: "clone_keys h ra = (ra', h2)"
      and al: "alloc (DeclObj d0 (Some ra')) h2 = (a', h1)"
      by (auto simp: clone_decl_def split: prod.splits)
    from clone_keys_spec [OF assms(1,2) k(1,2) ck] obtain kas' where
      e: "grows b h h2" "wf_heap h2" "b \<le> ra'" "ra' < lim h2"
        "cells h2 ra' = Some (ArrayObj kas')" "those (map (load_key h2) kas') = Some keys"
      by blast
    then have r: "refs (DeclObj d0 (Some ra')) \<subseteq> {b ..< lim h2}" by simp
    note g = alloc_grows [OF e(2) r al] and w = alloc_wf [OF e(2) r al] and q = alloc_eq [OF al]
    from e(1) assms(2) have "b \<le> lim h2" by (simp add: grows_def)
    with q have a': "b \<le> a'" "a' < lim h1" "cells h1 a' = Some (DeclObj d0 (Some ra'))"
      by simp_all
    from grows_cells [OF g e(4)] e(5) have "cells h1 ra' = Some (ArrayObj kas')" by simp
    with a'(3) grows_load_keys [OF e(2) g e(6)] k(3) have "load_decl h1 a' = Some d"
      by (simp add: load_decl_def)
    moreover from e(1) g have "grows b h h1" by (rule grows_trans)
    ultimately show ?thesis using a' w by blast
  qed
qed

lemma cloneDeep_spec:
  assumes "wf_heap h" and "load_entries h ea = Some es" and "cloneDeep h ea = (ea', h1)"
  shows "grows (lim h) h h1 \<and> wf_heap h1 \<and> lim h \<le> ea' \<and> ea' < lim h1 \<and>
     load_entries h1 ea' = Some es"
proof -
  from assms(2) obtain as where a: "cells h ea = Some (ArrayObj as)"
    "those (map (load_decl h) as) = Some es"
    by (auto simp: load_entries_def split: option.splits obj.splits)
  from a(1) assms(3) obtain as' h2 where c: "clone_each clone_decl h as = (as', h2)"
    and al: "alloc (ArrayObj as') h2 = (ea', h1)"
    by (auto simp: cloneDeep_def split: prod.splits)
  have e: "grows (lim h) h h2 \<and> wf_heap h2 \<and> set as' \<subseteq> {lim h ..< lim h2} \<and>
     those (map (load_decl h2) as') = Some es"
  proof (rule clone_each_spec [where ld = load_decl and f = clone_decl, OF _ _ assms(1) _ a(2) c])
    fix h' a a' h1 v
    assume "wf_heap h'" "lim h \<le> lim h'" "load_decl h' a = Some v" "clone_decl h' a = (a', h1)"
    then show "grows (lim h) h' h1 \<and> wf_heap h1 \<and> lim h \<le> a' \<and> a' < lim h1 \<and>
        load_decl h1 a' = Some v"
      by (rule clone_decl_spec)
  next
    fix h' h1 a v
    assume "wf_heap h'" "grows (lim h) h' h1" "load_decl h' a = Some v"
    then show "load_decl h1 a = Some v" by (rule grows_load_decl)
  qed simp
  then have r: "refs (ArrayObj as') \<subseteq> {lim h ..< lim h2}" by simp
  from e have wf2: "wf_heap h2" by simp
  note g = alloc_grows [OF wf2 r al] and w = alloc_wf [OF wf2 r al] and q = alloc_eq [OF al]
  from e have "lim h \<le> lim h2" by (simp add: grows_def)
  with q have ea': "lim h \<le> ea'" "ea' < lim h1" "cells h1 ea' = Some (ArrayObj as')"
    by simp_all
  have "those (map (load_decl h1) as') = Some es"
    using e
  proof (induction as' arbitrary: es)
    case Nil
    then show ?case by simp
  next
    case (Cons x xs)
    then show ?case
      using grows_load_decl [OF wf2 g, of x]
      by (auto split: option.splits)
  qed
  with ea'(3) have "load_entries h1 ea' = Some es" by (simp add: load_entries_def)
  moreover from e g have "grows (lim h) h h1" by (auto intro: grows_trans)
  ultimately show ?thesis using ea' w by blast
qed

text \<open>
  C2. The entries of the publisher that \<open>connect\<close> returns are a deep copy of the entries
  of the registry at that time, in objects of its own. Whatever the holder of the registry
  does afterwards without a reference into that copy (calls of \<open>declare\<close> and \<open>configure\<close>,
  new objects, updates in place of the objects it holds, declared ones included), the
  publisher reads the same entries, and every call of a method of the publisher does what
  it did.
\<close>

theorem publisher_snapshot:
  assumes "wf_heap h" and "load_entries h (entries_ref this) = Some es"
    and "connect_h amqp h this call = (Inr that, h1)"
    and "\<forall>c\<in>set calls. outside {lim h ..< lim h1} c"
  shows "publisher_of h1 that = Some \<lparr>pub_entries = es, pub_exchangePrefix = prefix_of that,
       pub_options = options_at that\<rparr> \<and>
     publisher_of (fst (foldl hstep (h1, this) calls)) that = publisher_of h1 that \<and>
     (\<forall>ev m args w. publish_h ev (fst (foldl hstep (h1, this) calls)) that m args w =
        publish_h ev h1 that m args w)"
proof -
  let ?S = "{lim h ..< lim h1}"
  let ?h2 = "fst (foldl hstep (h1, this) calls)"
  from assms(3) have c: "cloneDeep h (entries_ref this) = (entries_at that, h1)"
    by (auto simp: connect_h_def split: sum.splits prod.splits)
  from cloneDeep_spec [OF assms(1,2) c]
  have g: "grows (lim h) h h1" and wf1: "wf_heap h1" and ea: "entries_at that \<in> ?S"
    and l: "load_entries h1 (entries_at that) = Some es" by auto
  from assms(2) obtain as where "cells h (entries_ref this) = Some (ArrayObj as)"
    by (auto simp: load_entries_def split: option.splits obj.splits)
  from wf_defined [OF assms(1) this] have reg: "entries_ref this \<notin> ?S" by simp
  have closed: "\<forall>a\<in>?S. \<forall>ob. cells h1 a = Some ob \<longrightarrow> refs ob \<subseteq> ?S"
  proof (intro ballI allI impI)
    fix a ob assume "a \<in> ?S" "cells h1 a = Some ob"
    with g show "refs ob \<subseteq> ?S" unfolding grows_def by auto
  qed
  have "refs ob \<inter> ?S = {}" if "a \<notin> ?S" "cells h1 a = Some ob" for a ob
  proof -
    from wf_defined [OF wf1 that(2)] that(1) have a: "a < lim h" by simp
    with g that(2) have "cells h a = Some ob" by (simp add: grows_def)
    from wf_refs [OF assms(1) this] show ?thesis by auto
  qed
  moreover from g have "?S \<subseteq> {..< lim h1}" by auto
  ultimately have "confined ?S h1 h1" by (simp add: confined_def)
  from confined_foldl [OF this assms(4) reg]
  have "\<forall>a\<in>?S. cells ?h2 a = cells h1 a" by (simp add: confined_def)
  from load_entries_local [OF this closed ea]
  have same: "publisher_of ?h2 that = publisher_of h1 that" by (simp add: publisher_of_def)
  then have "publish_h ev ?h2 that m args w = publish_h ev h1 that m args w" for ev m args w
    by (simp add: publish_h_def)
  with same l show ?thesis by (simp add: publisher_of_def)
qed

lemma wf_heap1: "wf_heap heap1"
  by (auto simp: wf_heap_def heap1_def split: if_splits)

lemma load_heap1:
  "load_entries heap1 (entries_ref registry_at_0) =
     Some [(sample ''task-completed'' [hd stored_keys])]"
  by (simp add: load_entries_def load_decl_def load_key_def heap1_def registry_at_0_def
      sample_def)

lemma connect_heap1:
  "connect_h (\<lambda>c. None) heap1 registry_at_0 options3 = (Inr publisher_at_7, heap2)"
  by (simp add: connect_h_def connect_def call_options_def defaults_def no_options_def
      registry0_def options3_def publisher3_def the_credentials_def Publisher_def
      connect_exchangePrefix_def connect_connectionString_def Let_def registry_at_0_def
      cloneDeep_def clone_decl_def clone_keys_def clone_key_def alloc_def heap1_def heap2_def
      publisher_at_7_def)

lemma later_outside: "\<forall>c\<in>set later_calls. outside {lim heap1 ..< lim heap2} c"
  by (simp add: later_calls_def heap1_def heap2_def)

lemma registry_changed:
  "load_entries (fst (foldl hstep (heap2, registry_at_0) later_calls)) 0 =
     Some [(sample ''task-completed'' [(hd stored_keys)\<lparr>maxSize := Num 300\<rparr>])
             \<lparr>schema := Str ''http://schemas/message.json#''\<rparr>]"
  by (simp add: later_calls_def heap1_def heap2_def registry_at_0_def put_def declare_h_def
      check_strings_def sample_def prefixed_def defaults_def no_options_def registry0_def
      stored_keys_def declare_key_def loop_init_def load_head_def load_entries_def
      load_decl_def load_key_def Let_def)

theorem publisher_snapshot_witness:
  "connect_h (\<lambda>c. None) heap1 registry_at_0 options3 = (Inr publisher_at_7, heap2) \<and>
   publisher_of heap2 publisher_at_7 =
     Some \<lparr>pub_entries = [sample ''task-completed'' [hd stored_keys]],
       pub_exchangePrefix = Some ''v1/'', pub_options = pub_options publisher3\<rparr> \<and>
   publisher_of (fst (foldl hstep (heap2, registry_at_0) later_calls)) publisher_at_7 =
     publisher_of heap2 publisher_at_7"
  using publisher_snapshot [OF wf_heap1 load_heap1 connect_heap1 later_outside] connect_heap1
  by (simp add: publisher_at_7_def)

text \<open>On these options \<open>declare\<close> does in the store what it does on options held by
  value.\<close>

lemma declare_heap0:
  "declare_h heap0 registry_at_0 3 = (None, heap1)"
  by (simp add: declare_h_def heap0_def heap1_def registry_at_0_def registry0_def
      no_options_def check_strings_def sample_def prefixed_def declare_key_def loop_init_def
      field_def stored_keys_def put_def load_head_def Let_def fun_upd_twist)

lemma declare_heap0_by_value:
  "map_option (\<lambda>es. registry0\<lparr>entries := es\<rparr>)
     (load_entries (snd (declare_h heap0 registry_at_0 3)) (entries_ref registry_at_0)) =
   (case declare_exchange registry0 (sample ''task-completed'' [field ''taskId'' (Num 22)]) of
      Inl e \<Rightarrow> None | Inr this \<Rightarrow> Some this)"
  by (simp add: declare_heap0 load_heap1 declare_exchange_def registry0_def
      no_options_def check_strings_def sample_def prefixed_def declare_key_def loop_init_def
      field_def stored_keys_def)

section \<open>The stored declarations\<close>





















lemma keeps_valid_trans: "keeps_valid h h1 \<Longrightarrow> keeps_valid h1 h2 \<Longrightarrow> keeps_valid h h2"
  unfolding keeps_valid_def by blast




























end
